theory Spec2Isabelle
  imports Main
begin

section \<open>Data model\<close>

text \<open>
  The keys of dictionaries and groups: every string except \<^verbatim>\<open>__proto__\<close>. An assignment
  \<^verbatim>\<open>record.value[key] = d\<close> under that one key is no property write: it runs the
  prototype setter and makes \<open>d\<close> the prototype of the mapping, and what the mapping then
  inherits are the properties of a descriptor object, which \<^verbatim>\<open>types.ts\<close> and
  \<^verbatim>\<open>factory.ts\<close> (absent from the sources) fix. Dictionaries with that key are outside
  this development; under every other key an assignment adds or overwrites an own property.
\<close>

typedef key = "{s :: string. s \<noteq> ''__proto__''}"
  morphisms key_text Key
  by (rule exI [of _ "[]"]) simp

text \<open>
  The values of a parsed locale file: strings, numbers, booleans, \<^verbatim>\<open>null\<close>, arrays and
  dictionaries. A number is carried as the text that its \<^verbatim>\<open>toString()\<close> returns, which
  is all \<^verbatim>\<open>toTypeNode\<close> reads of it. A dictionary is the list of its own entries in the
  order \<^verbatim>\<open>Object.entries\<close> enumerates them.
\<close>

datatype YamlNode =
    YString string
  | YNumber string
  | YBoolean bool
  | YNull
  | YArray "YamlNode list"
  | YObject "(key \<times> YamlNode) list"

datatype jstype = TypeofNumber | TypeofString | TypeofBoolean | TypeofObject

text \<open>JavaScript's \<^verbatim>\<open>typeof\<close>: \<^verbatim>\<open>null\<close> and arrays are of type \<^verbatim>\<open>'object'\<close>.\<close>

fun typeof :: "YamlNode \<Rightarrow> jstype" where
  "typeof (YString _) = TypeofString"
| "typeof (YNumber _) = TypeofNumber"
| "typeof (YBoolean _) = TypeofBoolean"
| "typeof YNull = TypeofObject"
| "typeof (YArray _) = TypeofObject"
| "typeof (YObject _) = TypeofObject"

fun toString :: "YamlNode \<Rightarrow> string" where
  "toString (YNumber n) = n"
| "toString (YString s) = s"
| "toString _ = []"

text \<open>
  Modelled from the spec: the type descriptors of \<^verbatim>\<open>types.ts\<close> (absent from the sources):
  a plain text leaf, a parameterized leaf with its ordered arguments, and a nested group
  with its mapping from key to descriptor and the \<^verbatim>\<open>missing\<close> flag that marks the
  provisional accumulator. The mapping is a plain object (\<^verbatim>\<open>toTypeNode\<close> passes the
  literal \<^verbatim>\<open>{}\<close>): \<open>val\<close> lists its own entries in insertion order, which is the order
  \<^verbatim>\<open>Object.entries\<close> enumerates them in, and what it inherits from
  \<^verbatim>\<open>Object.prototype\<close> is accounted for where \<^verbatim>\<open>merge\<close> reads it (\<open>get_property\<close>).
\<close>

datatype ArgType = StringLiteral string | Param string

datatype TypeDescriptorKind = KindString | KindCall | KindRecord

datatype TypeDescriptor =
    StringTypeDescriptor string
  | CallTypeDescriptor "ArgType list"
  | RecordType RecordTypeDescriptor
and RecordTypeDescriptor =
    RecordTypeDescriptor (val: "(key \<times> TypeDescriptor) list") (provisional: bool)

fun kind :: "TypeDescriptor \<Rightarrow> TypeDescriptorKind" where
  "kind (StringTypeDescriptor _) = KindString"
| "kind (CallTypeDescriptor _) = KindCall"
| "kind (RecordType _) = KindRecord"

text \<open>
  Modelled from the spec: the \<^verbatim>\<open>Context\<close> of one run. \<^verbatim>\<open>errors\<close> is a \<^verbatim>\<open>Set\<close> of
  messages and \<^verbatim>\<open>missing\<close> a \<^verbatim>\<open>Map\<close> from dotted path to the two sets of locale names;
  both iterate in insertion order, so they are lists here, with \<open>set_add\<close> and \<open>obj_set\<close>
  keeping the elements and the keys unique.
\<close>

record MissingEntry =
  entry_exists :: "string list"
  entry_missing :: "string list"

record Context =
  errors :: "string list"
  paths :: "string list"
  missing :: "(string \<times> MissingEntry) list"

datatype Target = Target_resource | Target_type | Target_provider

datatype generated = Code string | Lazy string "(string \<times> string) list"

text \<open>
  The calls of the message table \<^verbatim>\<open>i18n.t.errors\<close>. The table itself (the wording, which
  depends on the language the tool runs in) is a parameter \<open>t\<close> of every function that
  records a diagnostic.
\<close>

datatype message =
    unexpected_value string YamlNode
  | type_of_path_is_unexpected string "TypeDescriptorKind option" "TypeDescriptorKind option"
  | args_is_different string string string
  | key_missing_in_path string string

text \<open>
  What \<^verbatim>\<open>gen\<close> can throw: the \<^verbatim>\<open>TypeError\<close> of \<^verbatim>\<open>Object.entries(null)\<close>, and the
  composite \<^verbatim>\<open>Error\<close> with its message.
\<close>

datatype error = TypeError | Error string

subsection \<open>Sets, objects and strings of the runtime\<close>

definition set_add :: "'a \<Rightarrow> 'a list \<Rightarrow> 'a list" where
  "set_add x xs = (if x \<in> set xs then xs else xs @ [x])"

definition new_Set :: "'a list \<Rightarrow> 'a list" where
  "new_Set xs = fold set_add xs []"

text \<open>\<^verbatim>\<open>obj[k] = v\<close>: an existing key keeps its place, a new key is appended.\<close>

fun obj_set :: "('k \<times> 'a) list \<Rightarrow> 'k \<Rightarrow> 'a \<Rightarrow> ('k \<times> 'a) list" where
  "obj_set [] k v = [(k, v)]"
| "obj_set ((k', v') # kvs) k v = (if k' = k then (k, v) # kvs else (k', v') # obj_set kvs k v)"

fun join :: "string \<Rightarrow> string list \<Rightarrow> string" where
  "join sep [] = []"
| "join sep [x] = x"
| "join sep (x # y # ys) = x @ sep @ join sep (y # ys)"

fun digit_char :: "nat \<Rightarrow> char" where
  "digit_char n = ''0123456789'' ! n"

fun show_nat :: "nat \<Rightarrow> string" where
  "show_nat n = (if n < 10 then [digit_char n] else show_nat (n div 10) @ [digit_char (n mod 10)])"

declare show_nat.simps [simp del]

definition indices :: "'a list \<Rightarrow> key list" where
  "indices xs = map (\<lambda>i. Key (show_nat i)) [0..<length xs]"

text \<open>
  The names that every plain object inherits from \<^verbatim>\<open>Object.prototype\<close>, and what
  \<^verbatim>\<open>key in obj\<close> and \<^verbatim>\<open>obj[key]\<close> find in a plain object with the own entries
  \<open>obj\<close>: an own entry, an inherited property, or nothing. The inherited properties are
  functions of the runtime (for \<^verbatim>\<open>constructor\<close>, the function \<^verbatim>\<open>Object\<close>).
\<close>

definition Object_prototype_names :: "string list" where
  "Object_prototype_names =
     [''constructor'', ''__defineGetter__'', ''__defineSetter__'', ''hasOwnProperty'',
      ''__lookupGetter__'', ''__lookupSetter__'', ''isPrototypeOf'', ''propertyIsEnumerable'',
      ''toString'', ''valueOf'', ''__proto__'', ''toLocaleString'']"

datatype 'a property = Own 'a | Inherited | Absent

definition get_property :: "(key \<times> 'a) list \<Rightarrow> key \<Rightarrow> 'a property" where
  "get_property obj k =
     (case map_of obj k of
        Some v \<Rightarrow> Own v
      | None \<Rightarrow> if key_text k \<in> set Object_prototype_names then Inherited else Absent)"

text \<open>
  \<^verbatim>\<open>Object.entries\<close>: the entries of an object, the indexed elements of an array, the
  indexed characters of a string, nothing for a number or a boolean, and a
  \<^verbatim>\<open>TypeError\<close> for \<^verbatim>\<open>null\<close>.
\<close>

fun Object_entries :: "YamlNode \<Rightarrow> error + (key \<times> YamlNode) list" where
  "Object_entries (YObject entries) = Inr entries"
| "Object_entries (YArray items) = Inr (zip (indices items) items)"
| "Object_entries YNull = Inl TypeError"
| "Object_entries (YString s) = Inr (zip (indices s) (map (\<lambda>c. YString [c]) s))"
| "Object_entries (YNumber n) = Inr []"
| "Object_entries (YBoolean b) = Inr []"

subsection \<open>Helpers of \<^verbatim>\<open>factory.ts\<close> and \<^verbatim>\<open>utils.ts\<close>\<close>

text \<open>
  Modelled from the spec: the four constructors of \<^verbatim>\<open>factory.ts\<close> (absent from the
  sources). Only the accumulator that \<^verbatim>\<open>gen\<close> starts from is provisional.
\<close>

definition createStringTypeDescriptor :: "string \<Rightarrow> TypeDescriptor" where
  "createStringTypeDescriptor s = StringTypeDescriptor s"

definition createCallTypeDescriptor :: "ArgType list \<Rightarrow> TypeDescriptor" where
  "createCallTypeDescriptor args = CallTypeDescriptor args"

definition createRecordTypeDescriptor :: "(key \<times> TypeDescriptor) list \<Rightarrow> RecordTypeDescriptor" where
  "createRecordTypeDescriptor v = RecordTypeDescriptor v False"

definition createMissingRecordTypeDescriptor :: RecordTypeDescriptor where
  "createMissingRecordTypeDescriptor = RecordTypeDescriptor [] True"

text \<open>
  Modelled from the spec: the guards and helpers of \<^verbatim>\<open>utils.ts\<close>, which is absent
  from the sources. \<^verbatim>\<open>isMissingRecordTypeDescriptor\<close> reads the flag that \<^verbatim>\<open>merge\<close>
  deletes; \<^verbatim>\<open>isStringType\<close>, \<^verbatim>\<open>isCallType\<close>, \<^verbatim>\<open>isRecordType\<close> and
  \<^verbatim>\<open>isParamArgType\<close> tell the variants of the two unions apart, the first three as the
  patterns of \<open>merge_source_entry\<close> below, and accept no value that is no descriptor;
  \<^verbatim>\<open>getCurrentPath\<close> is the dotted path of the key segments; \<^verbatim>\<open>inPathContext\<close> extends the path by a key for the duration of a
  callback, with \<open>push_path\<close> before it and \<open>pop_path\<close> after it; \<^verbatim>\<open>arrayEq\<close>
  compares two sequences position by position under a projection; \<^verbatim>\<open>diffArray\<close> is the
  complement of its second argument in its first; \<^verbatim>\<open>first\<close> is the first element of a
  list, if there is one.
\<close>

definition isMissingRecordTypeDescriptor :: "RecordTypeDescriptor \<Rightarrow> bool" where
  "isMissingRecordTypeDescriptor r = provisional r"

fun isParamArgType :: "ArgType \<Rightarrow> bool" where
  "isParamArgType (Param _) = True"
| "isParamArgType (StringLiteral _) = False"

text \<open>\<^verbatim>\<open>x => x.name\<close>, which \<^verbatim>\<open>merge\<close> applies to \<open>Param\<close> arguments only.\<close>

fun name_of :: "ArgType \<Rightarrow> string" where
  "name_of (Param n) = n"
| "name_of (StringLiteral _) = []"

definition arrayEq :: "'a list \<Rightarrow> 'a list \<Rightarrow> ('a \<Rightarrow> 'b) \<Rightarrow> bool" where
  "arrayEq xs ys f = (map f xs = map f ys)"

definition diffArray :: "'a list \<Rightarrow> 'a list \<Rightarrow> 'a list" where
  "diffArray a b = filter (\<lambda>x. x \<notin> set b) a"

definition first :: "'a list \<Rightarrow> 'a option" where
  "first xs = (case xs of [] \<Rightarrow> None | x # _ \<Rightarrow> Some x)"

definition getCurrentPath :: "Context \<Rightarrow> string" where
  "getCurrentPath context = join ''.'' (paths context)"

definition push_path :: "string \<Rightarrow> Context \<Rightarrow> Context" where
  "push_path key context = context\<lparr>paths := paths context @ [key]\<rparr>"

definition pop_path :: "Context \<Rightarrow> Context" where
  "pop_path context = context\<lparr>paths := butlast (paths context)\<rparr>"

text \<open>The template \<^verbatim>\<open>`${getCurrentPath(context)}.${key}`\<close> of \<^verbatim>\<open>merge\<close>.\<close>

definition pathOf :: "Context \<Rightarrow> key \<Rightarrow> string" where
  "pathOf context key = getCurrentPath context @ ''.'' @ key_text key"

definition errors_add :: "string \<Rightarrow> Context \<Rightarrow> Context" where
  "errors_add msg context = context\<lparr>errors := set_add msg (errors context)\<rparr>"

text \<open>
  \<^verbatim>\<open>record.value[key] = d\<close>: the properties of \<^verbatim>\<open>Object.prototype\<close> under the keys of
  this development are writable data properties, so the assignment gives the mapping an own
  entry also where it inherits the name.
\<close>

definition record_set :: "RecordTypeDescriptor \<Rightarrow> key \<Rightarrow> TypeDescriptor \<Rightarrow> RecordTypeDescriptor" where
  "record_set r key d = RecordTypeDescriptor (obj_set (val r) key d) (provisional r)"

section \<open>The tree builder\<close>

text \<open>
  The \<^verbatim>\<open>'number'\<close> and \<^verbatim>\<open>'string'\<close> cases of \<^verbatim>\<open>toTypeNode\<close>. The template parser
  \<^verbatim>\<open>matchCallBody\<close> of \<^verbatim>\<open>helper.ts\<close> is absent from the sources and is a parameter:
  \<open>None\<close> is its falsy result.
\<close>

definition leaf :: "(string \<Rightarrow> ArgType list option) \<Rightarrow> string \<Rightarrow> TypeDescriptor" where
  "leaf matchCallBody s =
     (case matchCallBody s of
        None \<Rightarrow> createStringTypeDescriptor s
      | Some args \<Rightarrow> createCallTypeDescriptor args)"

definition entry_weight :: "YamlNode \<Rightarrow> nat" where
  "entry_weight v = (if typeof v = TypeofObject then 2 * size v + 2 else 1)"

definition node_weight :: "YamlNode \<Rightarrow> nat" where
  "node_weight node = 2 * size node + 1 + (case node of YString s \<Rightarrow> length s | _ \<Rightarrow> 0)"

lemma zip_weight_le:
  "(\<Sum>e\<leftarrow>zip ks xs. entry_weight (snd e)) \<le> (\<Sum>x\<leftarrow>xs. entry_weight x)"
proof (induction xs arbitrary: ks)
  case Nil
  then show ?case by simp
next
  case (Cons x xs)
  then show ?case by (cases ks) (auto intro: le_trans [OF Cons.IH] simp: trans_le_add2)
qed

lemma entries_weight:
  "Object_entries node = Inr es \<Longrightarrow> (\<Sum>e\<leftarrow>es. entry_weight (snd e)) < node_weight node"
proof (cases node)
  case (YString s)
  assume "Object_entries node = Inr es"
  with YString have es: "es = zip (indices s) (map (\<lambda>c. YString [c]) s)" by simp
  have "(\<Sum>e\<leftarrow>es. entry_weight (snd e)) \<le> (\<Sum>x\<leftarrow>map (\<lambda>c. YString [c]) s. entry_weight x)"
    unfolding es by (rule zip_weight_le)
  also have "\<dots> = length s"
    by (induction s) (simp_all add: entry_weight_def)
  finally show ?thesis using YString by (simp add: node_weight_def)
next
  case (YArray items)
  assume "Object_entries node = Inr es"
  with YArray have es: "es = zip (indices items) items" by simp
  have "(\<Sum>e\<leftarrow>es. entry_weight (snd e)) \<le> (\<Sum>x\<leftarrow>items. entry_weight x)"
    unfolding es by (rule zip_weight_le)
  also have "\<dots> \<le> 2 * size_list size items"
    by (induction items) (simp_all add: entry_weight_def)
  finally show ?thesis using YArray by (simp add: node_weight_def)
next
  case (YObject entries)
  assume "Object_entries node = Inr es"
  with YObject have es: "es = entries" by simp
  have "(\<Sum>e\<leftarrow>entries. entry_weight (snd e)) \<le> 2 * size_list (size_prod (\<lambda>_. 0) size) entries"
    by (induction entries) (auto simp: entry_weight_def)
  then show ?thesis using YObject es by (simp add: node_weight_def)
qed (auto simp: node_weight_def)

text \<open>
  \<^verbatim>\<open>toTypeNode\<close>, with the body of its \<^verbatim>\<open>forEach\<close> as \<open>toTypeNode_forEach\<close>, which
  threads the record under construction and the context. An exception ends the loop.
\<close>

function toTypeNode ::
  "(string \<Rightarrow> ArgType list option) \<Rightarrow> (message \<Rightarrow> string) \<Rightarrow> YamlNode \<Rightarrow> Context
     \<Rightarrow> error + (RecordTypeDescriptor \<times> Context)"
and toTypeNode_forEach ::
  "(string \<Rightarrow> ArgType list option) \<Rightarrow> (message \<Rightarrow> string) \<Rightarrow> (key \<times> YamlNode) list
     \<Rightarrow> RecordTypeDescriptor \<Rightarrow> Context \<Rightarrow> error + (RecordTypeDescriptor \<times> Context)"
where
  "toTypeNode matchCallBody t node context =
     (case Object_entries node of
        Inl e \<Rightarrow> Inl e
      | Inr entries \<Rightarrow>
          toTypeNode_forEach matchCallBody t entries (createRecordTypeDescriptor []) context)"
| "toTypeNode_forEach matchCallBody t [] record context = Inr (record, context)"
| "toTypeNode_forEach matchCallBody t ((key, v) # rest) record context =
     (case typeof v of
        TypeofNumber \<Rightarrow>
          toTypeNode_forEach matchCallBody t rest
            (record_set record key (leaf matchCallBody (toString v))) context
      | TypeofString \<Rightarrow>
          toTypeNode_forEach matchCallBody t rest
            (record_set record key (leaf matchCallBody (toString v))) context
      | TypeofObject \<Rightarrow>
          (case toTypeNode matchCallBody t v (push_path (key_text key) context) of
             Inl e \<Rightarrow> Inl e
           | Inr (r, context') \<Rightarrow>
               toTypeNode_forEach matchCallBody t rest
                 (record_set record key (RecordType r)) (pop_path context'))
      | TypeofBoolean \<Rightarrow>
          toTypeNode_forEach matchCallBody t rest record
            (errors_add (t (unexpected_value (key_text key) v)) context))"
  by pat_completeness auto
termination
proof (relation "measure (\<lambda>x. case x of
          Inl (_, _, node, _) \<Rightarrow> node_weight node
        | Inr (_, _, entries, _, _) \<Rightarrow> (\<Sum>e\<leftarrow>entries. entry_weight (snd e)))", goal_cases)
  case 1
  show ?case by simp
next
  case (2 matchCallBody t node ctx entries)
  then show ?case by (simp add: entries_weight)
next
  case (3 matchCallBody t key v rest acc ctx)
  show ?case by (simp add: entry_weight_def)
next
  case (4 matchCallBody t key v rest acc ctx)
  show ?case by (simp add: entry_weight_def)
next
  case (5 matchCallBody t key v rest acc ctx)
  show ?case by (simp add: entry_weight_def)
next
  case (6 matchCallBody t key v rest acc ctx)
  then show ?case by (cases v) (simp_all add: entry_weight_def node_weight_def)
next
  case (7 matchCallBody t key v rest acc ctx)
  show ?case by (simp add: entry_weight_def)
qed

section \<open>Unification\<close>

text \<open>
  The two branches of \<^verbatim>\<open>merge\<close> that write the ledger: a key the locale \<open>name\<close> lacks,
  and a key only the locale \<open>name\<close> has.
\<close>

definition record_missing :: "string \<Rightarrow> string \<Rightarrow> Context \<Rightarrow> Context" where
  "record_missing path name context =
     (case map_of (missing context) path of
        None \<Rightarrow>
          context\<lparr>missing := obj_set (missing context) path
                                \<lparr>entry_exists = [], entry_missing = [name]\<rparr>\<rparr>
      | Some miss \<Rightarrow>
          context\<lparr>missing := obj_set (missing context) path
                                (miss\<lparr>entry_missing := set_add name (entry_missing miss)\<rparr>)\<rparr>)"

definition record_exists :: "string \<Rightarrow> string \<Rightarrow> Context \<Rightarrow> Context" where
  "record_exists path name context =
     (case map_of (missing context) path of
        None \<Rightarrow>
          context\<lparr>missing := obj_set (missing context) path
                                \<lparr>entry_exists = [name], entry_missing = []\<rparr>\<rparr>
      | Some miss \<Rightarrow>
          context\<lparr>missing := obj_set (missing context) path
                                (miss\<lparr>entry_exists := set_add name (entry_exists miss)\<rparr>)\<rparr>)"

text \<open>
  The body of the first loop of \<^verbatim>\<open>merge\<close>, over the entries of the target. Where the
  source only inherits the key, \<^verbatim>\<open>key in source.value\<close> holds and
  \<^verbatim>\<open>source.value[key].kind\<close> is \<^verbatim>\<open>undefined\<close>, which differs from every kind.
\<close>

definition merge_target_entry ::
  "(message \<Rightarrow> string) \<Rightarrow> RecordTypeDescriptor \<Rightarrow> string \<Rightarrow> key \<times> TypeDescriptor
     \<Rightarrow> Context \<Rightarrow> Context" where
  "merge_target_entry t source name = (\<lambda>(key, v) context.
     case get_property (val source) key of
       Absent \<Rightarrow> record_missing (pathOf context key) name context
     | Own sv \<Rightarrow>
         if kind sv \<noteq> kind v
         then errors_add
                (t (type_of_path_is_unexpected (pathOf context key) (Some (kind sv))
                      (Some (kind v)))) context
         else context
     | Inherited \<Rightarrow>
         errors_add
           (t (type_of_path_is_unexpected (pathOf context key) None (Some (kind v)))) context)"

text \<open>
  \<^verbatim>\<open>merge\<close>: the first loop, the second loop (\<open>merge_forEach\<close>, with
  \<open>merge_source_entry\<close> as its body, on the pair of the target and the context), and the
  deletion of the flag. The target of a nested call is an object held by the target, so what
  the call does to it is written back under its key. A descriptor that the accumulator
  adopts is shared with the locale tree it comes from; the locale trees are values here,
  which is the same as long as no call writes to a nested target, and none does
  (\<open>merge_keeps_locale_record\<close> below): only a provisional target is written to, and no
  group of a locale tree is provisional. Where the target only inherits the key,
  \<^verbatim>\<open>key in target.value\<close> holds, \<^verbatim>\<open>targetValue\<close> is a function of the runtime that
  none of the guards accepts, and its \<^verbatim>\<open>kind\<close> is \<^verbatim>\<open>undefined\<close>.
\<close>

fun merge ::
  "(message \<Rightarrow> string) \<Rightarrow> RecordTypeDescriptor \<Rightarrow> RecordTypeDescriptor \<Rightarrow> string \<Rightarrow> Context
     \<Rightarrow> RecordTypeDescriptor \<times> Context"
and merge_forEach ::
  "(message \<Rightarrow> string) \<Rightarrow> (key \<times> TypeDescriptor) list \<Rightarrow> string
     \<Rightarrow> RecordTypeDescriptor \<times> Context \<Rightarrow> RecordTypeDescriptor \<times> Context"
and merge_source_entry ::
  "(message \<Rightarrow> string) \<Rightarrow> key \<Rightarrow> TypeDescriptor \<Rightarrow> string
     \<Rightarrow> RecordTypeDescriptor \<times> Context \<Rightarrow> RecordTypeDescriptor \<times> Context"
where
  "merge t target (RecordTypeDescriptor sv sm) name context =
     (case merge_forEach t sv name
             (target,
              fold (merge_target_entry t (RecordTypeDescriptor sv sm) name) (val target) context) of
        (target', context') \<Rightarrow> (RecordTypeDescriptor (val target') False, context'))"
| "merge_forEach t [] name state = state"
| "merge_forEach t ((key, v) # rest) name state =
     merge_forEach t rest name (merge_source_entry t key v name state)"
| "merge_source_entry t key v name (target, context) =
     (case get_property (val target) key of
        Absent \<Rightarrow>
          if isMissingRecordTypeDescriptor target
          then (record_set target key v, context)
          else (target, record_exists (pathOf context key) name context)
      | Inherited \<Rightarrow>
          (target,
           errors_add (t (type_of_path_is_unexpected (pathOf context key)
                            (Some (kind v)) None)) context)
      | Own targetValue \<Rightarrow>
          (case (targetValue, v) of
             (StringTypeDescriptor _, StringTypeDescriptor _) \<Rightarrow> (target, context)
           | (CallTypeDescriptor targetBody, CallTypeDescriptor sourceBody) \<Rightarrow>
               (let targetArgs = filter isParamArgType targetBody;
                    sourceArgs = filter isParamArgType sourceBody
                in if \<not> arrayEq targetArgs sourceArgs name_of
                   then (target,
                         errors_add (t (args_is_different (pathOf context key)
                                          (join '','' (map name_of targetArgs))
                                          (join '','' (map name_of sourceArgs)))) context)
                   else (target, context))
           | (RecordType targetRecord, RecordType sourceRecord) \<Rightarrow>
               (case merge t targetRecord sourceRecord name (push_path (key_text key) context) of
                  (targetRecord', context') \<Rightarrow>
                    (record_set target key (RecordType targetRecord'), pop_path context'))
           | _ \<Rightarrow>
               (target,
                errors_add (t (type_of_path_is_unexpected (pathOf context key)
                                 (Some (kind v)) (Some (kind targetValue)))) context)))"

section \<open>Generation\<close>

text \<open>The \<^verbatim>\<open>files.map\<close> of \<^verbatim>\<open>gen\<close>: every locale is built in the one context.\<close>

fun toTypeNodes ::
  "(string \<Rightarrow> ArgType list option) \<Rightarrow> (message \<Rightarrow> string) \<Rightarrow> (string \<times> YamlNode) list
     \<Rightarrow> Context \<Rightarrow> error + ((string \<times> RecordTypeDescriptor) list \<times> Context)" where
  "toTypeNodes matchCallBody t [] context = Inr ([], context)"
| "toTypeNodes matchCallBody t ((name, v) # files) context =
     (case toTypeNode matchCallBody t v context of
        Inl e \<Rightarrow> Inl e
      | Inr (r, context') \<Rightarrow>
          (case toTypeNodes matchCallBody t files context' of
             Inl e \<Rightarrow> Inl e
           | Inr (rs, context'') \<Rightarrow> Inr ((name, r) # rs, context'')))"

text \<open>The \<^verbatim>\<open>typeNodes.reduce\<close> of \<^verbatim>\<open>gen\<close>, from the provisional accumulator.\<close>

definition reduce_merge ::
  "(message \<Rightarrow> string) \<Rightarrow> (string \<times> RecordTypeDescriptor) list \<Rightarrow> Context
     \<Rightarrow> RecordTypeDescriptor \<times> Context" where
  "reduce_merge t typeNodes context =
     fold (\<lambda>(name, v) (prev, c). merge t prev v name c) typeNodes
       (createMissingRecordTypeDescriptor, context)"

text \<open>The \<^verbatim>\<open>context.missing.forEach\<close> of \<^verbatim>\<open>gen\<close>, with the names it reports as \<open>offending\<close>.\<close>

definition offending :: "string list \<Rightarrow> MissingEntry \<Rightarrow> string" where
  "offending names e =
     (if entry_exists e \<noteq> [] then join '','' (diffArray names (entry_exists e))
      else join '','' (entry_missing e))"

definition missing_forEach :: "(message \<Rightarrow> string) \<Rightarrow> string list \<Rightarrow> Context \<Rightarrow> Context" where
  "missing_forEach t names context =
     fold (\<lambda>(path, e) c. errors_add (t (key_missing_in_path path (offending names e))) c)
       (missing context) context"

definition newline :: string where
  "newline = [CHR 0x0A]"

text \<open>The message of the \<^verbatim>\<open>Error\<close> that \<^verbatim>\<open>gen\<close> throws.\<close>

definition errorMessage :: "string list \<Rightarrow> string" where
  "errorMessage errs =
     newline @ ''Errors:'' @ newline @
     join newline (map (\<lambda>(idx, msg). ''  '' @ show_nat (idx + 1) @ ''. '' @ msg)
                     (zip [0..<length errs] errs)) @
     newline"

definition empty_context :: Context where
  "empty_context = \<lparr>errors = [], paths = [], missing = []\<rparr>"

text \<open>
  \<^verbatim>\<open>gen\<close> up to its report (lines 199 to 210): the locale trees, the canonical schema
  and the context as the fold leaves it, with the ledger not yet turned into diagnostics.
\<close>

definition fold_locales ::
  "(string \<Rightarrow> ArgType list option) \<Rightarrow> (message \<Rightarrow> string) \<Rightarrow> (string \<times> YamlNode) list
     \<Rightarrow> error + ((string \<times> RecordTypeDescriptor) list \<times> RecordTypeDescriptor \<times> Context)" where
  "fold_locales matchCallBody t files =
     (case toTypeNodes matchCallBody t files empty_context of
        Inl e \<Rightarrow> Inl e
      | Inr (typeNodes, context1) \<Rightarrow>
          (case reduce_merge t typeNodes context1 of
             (merged, context2) \<Rightarrow> Inr (typeNodes, merged, context2)))"

text \<open>
  \<^verbatim>\<open>gen\<close> up to its check of the error set: the locale trees, the canonical schema and
  the context after the ledger has been turned into diagnostics.
\<close>

definition unify ::
  "(string \<Rightarrow> ArgType list option) \<Rightarrow> (message \<Rightarrow> string) \<Rightarrow> (string \<times> YamlNode) list
     \<Rightarrow> error + ((string \<times> RecordTypeDescriptor) list \<times> RecordTypeDescriptor \<times> Context)" where
  "unify matchCallBody t files =
     (let context = empty_context;
          names = new_Set (map fst files)
      in case toTypeNodes matchCallBody t files context of
           Inl e \<Rightarrow> Inl e
         | Inr (typeNodes, context1) \<Rightarrow>
             (case reduce_merge t typeNodes context1 of
                (merged, context2) \<Rightarrow>
                  Inr (typeNodes, merged,
                       if missing context2 \<noteq> [] then missing_forEach t names context2
                       else context2)))"

text \<open>
  \<^verbatim>\<open>gen\<close>. The printing of the declarations (\<^verbatim>\<open>helper.ts\<close> and the TypeScript printer)
  is outside the sources: \<open>printCode\<close> stands for the text of the main artifact and
  \<open>printLocale\<close> for the text of one locale's artifact.
\<close>

definition gen ::
  "(string \<Rightarrow> ArgType list option) \<Rightarrow> (message \<Rightarrow> string)
     \<Rightarrow> (Target \<Rightarrow> bool \<Rightarrow> string option \<Rightarrow> string list \<Rightarrow> RecordTypeDescriptor
           \<Rightarrow> (string \<times> RecordTypeDescriptor) list \<Rightarrow> string)
     \<Rightarrow> (RecordTypeDescriptor \<Rightarrow> string)
     \<Rightarrow> (string \<times> YamlNode) list \<Rightarrow> Target \<Rightarrow> bool \<Rightarrow> string option
     \<Rightarrow> error + generated" where
  "gen matchCallBody t printCode printLocale files target lazy defaultLanguage =
     (case unify matchCallBody t files of
        Inl e \<Rightarrow> Inl e
      | Inr (typeNodes, merged, context) \<Rightarrow>
          if errors context \<noteq> [] then Inl (Error (errorMessage (errors context)))
          else
            (let langs = map fst files;
                 defaultLang =
                   (case defaultLanguage of
                      Some d \<Rightarrow> if d \<noteq> [] then Some d else first langs
                    | None \<Rightarrow> first langs);
                 others =
                   (if lazy \<and> target \<noteq> Target_type
                    then map (\<lambda>(name, v). (name, printLocale v))
                           (filter (\<lambda>(name, v). Some name \<noteq> defaultLang) typeNodes)
                    else []);
                 code = printCode target lazy defaultLang langs merged typeNodes
             in Inr (if lazy then Lazy code others else Code code)))"

section \<open>Sample collaborators and inputs\<close>

text \<open>
  Modelled from the spec: a template parser for the placeholder syntax of the spec's
  example \<^verbatim>\<open>"hi {name}"\<close>: an identifier in braces is a \<open>Param\<close>, the text around it is
  \<open>StringLiteral\<close> fragments, and a text without placeholders is plain. It stands in for
  \<^verbatim>\<open>matchCallBody\<close> where a concrete run is evaluated.
\<close>

fun flush :: "string \<Rightarrow> ArgType list" where
  "flush lit = (if lit = [] then [] else [StringLiteral (rev lit)])"

fun scan :: "string \<Rightarrow> string \<Rightarrow> string option \<Rightarrow> ArgType list" where
  "scan [] lit None = flush lit"
| "scan [] lit (Some p) = flush (p @ CHR ''{'' # lit)"
| "scan (c # cs) lit None =
     (if c = CHR ''{'' then scan cs lit (Some []) else scan cs (c # lit) None)"
| "scan (c # cs) lit (Some p) =
     (if c = CHR ''}'' then flush lit @ Param (rev p) # scan cs [] None
      else scan cs lit (Some (c # p)))"

definition braces :: "string \<Rightarrow> ArgType list option" where
  "braces s = (let args = scan s [] None in if list_ex isParamArgType args then Some args else None)"

text \<open>
  Modelled from the spec: a message table with one wording per diagnostic kind, and two
  printers. They stand in for the collaborators where a concrete run is evaluated.
\<close>

fun kind_text :: "TypeDescriptorKind option \<Rightarrow> string" where
  "kind_text (Some KindString) = ''String''"
| "kind_text (Some KindCall) = ''Call''"
| "kind_text (Some KindRecord) = ''Record''"
| "kind_text None = ''undefined''"

fun english :: "message \<Rightarrow> string" where
  "english (unexpected_value key v) =
     ''unexpected value: ['' @ key @ '', '' @
       (case v of YBoolean b \<Rightarrow> (if b then ''true'' else ''false'') | _ \<Rightarrow> toString v) @ '']''"
| "english (type_of_path_is_unexpected path actually should) =
     path @ '' is not correctly type, expected: '' @ kind_text should @
       '', actually: '' @ kind_text actually"
| "english (args_is_different path one two) =
     path @ '' has different type: ['' @ one @ ''] ['' @ two @ '']''"
| "english (key_missing_in_path path miss) = path @ '' is missing in '' @ miss"

definition printCode_sample ::
  "Target \<Rightarrow> bool \<Rightarrow> string option \<Rightarrow> string list \<Rightarrow> RecordTypeDescriptor
     \<Rightarrow> (string \<times> RecordTypeDescriptor) list \<Rightarrow> string" where
  "printCode_sample target lazy defaultLang langs merged typeNodes =
     ''type RootType = {'' @ join '';'' (map (key_text \<circ> fst) (val merged)) @ ''}''"

definition printLocale_sample :: "RecordTypeDescriptor \<Rightarrow> string" where
  "printLocale_sample r = ''export default {'' @ join '','' (map (key_text \<circ> fst) (val r)) @ ''}''"

text \<open>The locales \<^verbatim>\<open>A = {x: "1"}\<close> and \<^verbatim>\<open>B = {y: "2"}\<close>.\<close>

definition locale_A :: "string \<times> YamlNode" where
  "locale_A = (''A'', YObject [(Key ''x'', YString ''1'')])"

definition locale_B :: "string \<times> YamlNode" where
  "locale_B = (''B'', YObject [(Key ''y'', YString ''2'')])"

section \<open>Notions used in the statements\<close>

text \<open>
  The ordered sequence of the \<open>Param\<close> names of a body, \<open>StringLiteral\<close> fragments
  ignored, as the spec words the signature of a parameterized value.
\<close>

fun param_names :: "ArgType list \<Rightarrow> string list" where
  "param_names [] = []"
| "param_names (Param n # body) = n # param_names body"
| "param_names (StringLiteral s # body) = param_names body"

text \<open>
  A raw dictionary whose values are strings, numbers and nested dictionaries of the same
  kind.
\<close>

fun plain_dict :: "YamlNode \<Rightarrow> bool" where
  "plain_dict (YObject entries) =
     list_all (\<lambda>(k, v). case v of
                  YString _ \<Rightarrow> True
                | YNumber _ \<Rightarrow> True
                | YObject _ \<Rightarrow> plain_dict v
                | _ \<Rightarrow> False) entries"
| "plain_dict _ = False"

text \<open>A key that every plain object inherits from \<^verbatim>\<open>Object.prototype\<close>.\<close>

definition inherited_name :: "key \<Rightarrow> bool" where
  "inherited_name k \<longleftrightarrow> key_text k \<in> set Object_prototype_names"

text \<open>
  \<open>grows c c'\<close>: the context \<open>c'\<close> is at the path of \<open>c\<close>, holds every message of \<open>c\<close>,
  and its messages are distinct if those of \<open>c\<close> are. \<open>keeps target k d\<close>: the target
  holds under \<open>k\<close> a descriptor of the kind of \<open>d\<close>, and \<open>d\<close> itself when \<open>d\<close> is a leaf.
\<close>

definition grows :: "Context \<Rightarrow> Context \<Rightarrow> bool" where
  "grows c c' \<longleftrightarrow>
     paths c' = paths c \<and> set (errors c) \<subseteq> set (errors c') \<and>
     (distinct (errors c) \<longrightarrow> distinct (errors c'))"

definition keeps :: "RecordTypeDescriptor \<Rightarrow> key \<Rightarrow> TypeDescriptor \<Rightarrow> bool" where
  "keeps target k d \<longleftrightarrow>
     (case map_of (val target) k of
        None \<Rightarrow> False
      | Some d' \<Rightarrow> kind d' = kind d \<and> (kind d = KindRecord \<or> d' = d))"

text \<open>
  A locale tree as the tree builder makes it: no group carries the provisional flag and the
  keys of every group are distinct.
\<close>

fun locale_tree :: "TypeDescriptor \<Rightarrow> bool"
and locale_record :: "RecordTypeDescriptor \<Rightarrow> bool" where
  "locale_tree (StringTypeDescriptor _) = True"
| "locale_tree (CallTypeDescriptor _) = True"
| "locale_tree (RecordType r) = locale_record r"
| "locale_record (RecordTypeDescriptor v m) =
     (\<not> m \<and> distinct (map fst v) \<and> list_all (\<lambda>(k, d). locale_tree d) v)"

text \<open>
  \<open>covers_record big small\<close>: every key of \<open>small\<close> is a key of \<open>big\<close> with a descriptor
  of the same kind, and so on in the nested groups that the two share: the keys of
  \<open>big\<close>, at every depth, are a superset of those of \<open>small\<close> with the same kinds
  throughout. The groups of \<open>big\<close> may hold more keys than those of \<open>small\<close> at any depth.
\<close>

fun covers :: "TypeDescriptor \<Rightarrow> TypeDescriptor \<Rightarrow> bool"
and covers_record :: "RecordTypeDescriptor \<Rightarrow> RecordTypeDescriptor \<Rightarrow> bool" where
  "covers big (StringTypeDescriptor s) = (kind big = KindString)"
| "covers big (CallTypeDescriptor body) = (kind big = KindCall)"
| "covers big (RecordType small) =
     (case big of RecordType b \<Rightarrow> covers_record b small | _ \<Rightarrow> False)"
| "covers_record big (RecordTypeDescriptor sv sm) =
     list_all (\<lambda>(k, d). case map_of (val big) k of None \<Rightarrow> False | Some d' \<Rightarrow> covers d' d) sv"

text \<open>
  The keys of \<open>big\<close> that \<open>small\<close> lacks, each with the path segments of the group that
  holds it: those of the group itself, then those of the nested groups that the two share
  (\<open>absent_under\<close>, for one entry of \<open>small\<close>). \<open>absent_over\<close> lists the same keys for
  one entry of \<open>big\<close>, and \<open>dotted\<close> is the path under which \<^verbatim>\<open>merge\<close> files such
  a key in the ledger.
\<close>

fun absent :: "string list \<Rightarrow> TypeDescriptor \<Rightarrow> TypeDescriptor \<Rightarrow> (string list \<times> key) list"
and absent_under ::
  "string list \<Rightarrow> RecordTypeDescriptor \<Rightarrow> key \<times> TypeDescriptor \<Rightarrow> (string list \<times> key) list"
and absent_record ::
  "string list \<Rightarrow> RecordTypeDescriptor \<Rightarrow> RecordTypeDescriptor \<Rightarrow> (string list \<times> key) list" where
  "absent ps big (StringTypeDescriptor s) = []"
| "absent ps big (CallTypeDescriptor body) = []"
| "absent ps big (RecordType small) =
     (case big of RecordType b \<Rightarrow> absent_record ps b small | _ \<Rightarrow> [])"
| "absent_under ps big (k, d) =
     (case map_of (val big) k of None \<Rightarrow> [] | Some d' \<Rightarrow> absent (ps @ [key_text k]) d' d)"
| "absent_record ps big (RecordTypeDescriptor sv sm) =
     map (Pair ps) (filter (\<lambda>k. map_of sv k = None) (map fst (val big))) @
     concat (map (absent_under ps big) sv)"

definition absent_over ::
  "string list \<Rightarrow> RecordTypeDescriptor \<Rightarrow> key \<times> TypeDescriptor \<Rightarrow> (string list \<times> key) list" where
  "absent_over ps small = (\<lambda>(k, d').
     case map_of (val small) k of None \<Rightarrow> [(ps, k)] | Some d \<Rightarrow> absent (ps @ [key_text k]) d' d)"

definition dotted :: "string list \<times> key \<Rightarrow> string" where
  "dotted = (\<lambda>(ps, k). join ''.'' ps @ ''.'' @ key_text k)"

text \<open>The descriptors of \<^verbatim>\<open>"hi {name}"\<close> and \<^verbatim>\<open>"hi {user}"\<close>.\<close>

definition hi_name :: TypeDescriptor where
  "hi_name = CallTypeDescriptor [StringLiteral ''hi '', Param ''name'']"

definition hi_user :: TypeDescriptor where
  "hi_user = CallTypeDescriptor [StringLiteral ''hi '', Param ''user'']"


definition ledger_context :: Context where
  "ledger_context =
     \<lparr>errors = [], paths = [],
      missing = [(''.x'', \<lparr>entry_exists = [], entry_missing = [''B'']\<rparr>),
                 (''.y'', \<lparr>entry_exists = [''B''], entry_missing = []\<rparr>)]\<rparr>"

definition locale_constructor :: "string \<times> YamlNode" where
  "locale_constructor = (''en'', YObject [(Key ''constructor'', YString ''x'')])"

text \<open>
  Two locales of which the first has the keys of the second and one more, and two trees
  in the same relation whose nested groups differ as well.
\<close>

definition locale_xy :: "string \<times> YamlNode" where
  "locale_xy = (''en'', YObject [(Key ''x'', YString ''1''), (Key ''y'', YString ''2'')])"

definition locale_x :: "string \<times> YamlNode" where
  "locale_x = (''es'', YObject [(Key ''x'', YString ''uno'')])"

definition tree_larger :: RecordTypeDescriptor where
  "tree_larger =
     RecordTypeDescriptor
       [(Key ''x'', StringTypeDescriptor ''1''), (Key ''y'', StringTypeDescriptor ''2''),
        (Key ''menu'',
         RecordType (RecordTypeDescriptor
           [(Key ''open'', StringTypeDescriptor ''Open''),
            (Key ''close'', StringTypeDescriptor ''Close'')] False))]
       False"

definition tree_smaller :: RecordTypeDescriptor where
  "tree_smaller =
     RecordTypeDescriptor
       [(Key ''x'', StringTypeDescriptor ''uno''),
        (Key ''menu'',
         RecordType (RecordTypeDescriptor [(Key ''open'', StringTypeDescriptor ''Abrir'')] False))]
       False"




section \<open>Basic facts\<close>

lemma key_text_Key [simp]: "s \<noteq> ''__proto__'' \<Longrightarrow> key_text (Key s) = s"
  by (simp add: Key_inverse)

lemma key_text_not_proto [simp]: "key_text k \<noteq> ''__proto__''"
  using key_text [of k] by simp

lemma Key_eq_iff [simp]:
  "s \<noteq> ''__proto__'' \<Longrightarrow> s' \<noteq> ''__proto__'' \<Longrightarrow> Key s = Key s' \<longleftrightarrow> s = s'"
  by (simp add: Key_inject)

lemma Key_key_text [simp]: "Key (key_text k) = k"
  by (rule key_text_inverse)

lemma get_property_Own [simp]: "map_of obj k = Some v \<Longrightarrow> get_property obj k = Own v"
  by (simp add: get_property_def)

lemma get_property_Own_iff: "get_property obj k = Own v \<longleftrightarrow> map_of obj k = Some v"
  by (simp add: get_property_def split: option.splits)

lemma get_property_Absent_iff:
  "get_property obj k = Absent \<longleftrightarrow>
     map_of obj k = None \<and> key_text k \<notin> set Object_prototype_names"
  by (simp add: get_property_def split: option.splits)

lemma get_property_Inherited_iff:
  "get_property obj k = Inherited \<longleftrightarrow>
     map_of obj k = None \<and> key_text k \<in> set Object_prototype_names"
  by (simp add: get_property_def split: option.splits)

lemma get_property_None:
  "map_of obj k = None \<Longrightarrow>
   get_property obj k = (if inherited_name k then Inherited else Absent)"
  by (simp add: get_property_def inherited_name_def)

lemma set_set_add [simp]: "set (set_add x xs) = insert x (set xs)"
  by (auto simp: set_add_def)

lemma distinct_set_add [simp]: "distinct (set_add x xs) = distinct xs"
  by (auto simp: set_add_def)

lemma set_add_not_Nil [simp]: "set_add x xs \<noteq> []"
  by (auto simp: set_add_def)

lemma map_of_obj_set: "map_of (obj_set kvs k v) = (map_of kvs)(k \<mapsto> v)"
  by (induction kvs) (auto simp: fun_eq_iff)

lemma obj_set_absent: "map_of kvs k = None \<Longrightarrow> obj_set kvs k v = kvs @ [(k, v)]"
  by (induction kvs) (auto split: if_splits)

lemma obj_set_same: "map_of kvs k = Some v \<Longrightarrow> obj_set kvs k v = kvs"
  by (induction kvs) (auto split: if_splits)

lemma keys_obj_set:
  "map fst (obj_set kvs k v) = (if k \<in> fst ` set kvs then map fst kvs else map fst kvs @ [k])"
  by (induction kvs) force+

lemma distinct_keys_obj_set: "distinct (map fst kvs) \<Longrightarrow> distinct (map fst (obj_set kvs k v))"
  by (simp add: keys_obj_set)

lemma set_obj_set: "set (obj_set kvs k v) \<subseteq> insert (k, v) (set kvs)"
  by (induction kvs) (auto split: if_splits)

lemma set_keys_obj_set: "set (map fst (obj_set kvs k v)) = insert k (set (map fst kvs))"
  by (auto simp: keys_obj_set)

lemma errors_errors_add [simp]: "errors (errors_add m c) = set_add m (errors c)"
  and paths_errors_add [simp]: "paths (errors_add m c) = paths c"
  and missing_errors_add [simp]: "missing (errors_add m c) = missing c"
  by (simp_all add: errors_add_def)


lemma pop_push [simp]: "pop_path (push_path k c) = c"
  by (simp add: pop_path_def push_path_def)

lemma errors_push [simp]: "errors (push_path k c) = errors c"
  and missing_push [simp]: "missing (push_path k c) = missing c"
  and paths_push [simp]: "paths (push_path k c) = paths c @ [k]"
  and errors_pop [simp]: "errors (pop_path c) = errors c"
  and missing_pop [simp]: "missing (pop_path c) = missing c"
  and paths_pop [simp]: "paths (pop_path c) = butlast (paths c)"
  by (simp_all add: pop_path_def push_path_def)

lemma errors_record_missing [simp]: "errors (record_missing p n c) = errors c"
  and paths_record_missing [simp]: "paths (record_missing p n c) = paths c"
  and errors_record_exists [simp]: "errors (record_exists p n c) = errors c"
  and paths_record_exists [simp]: "paths (record_exists p n c) = paths c"
  by (simp_all add: record_missing_def record_exists_def split: option.splits)

lemma pathOf_cong: "paths c = paths c' \<Longrightarrow> pathOf c k = pathOf c' k"
  by (simp add: pathOf_def getCurrentPath_def)

lemma pathOf_dotted: "pathOf ctx key = dotted (paths ctx, key)"
  by (simp add: pathOf_def getCurrentPath_def dotted_def)

lemma val_record_set [simp]: "val (record_set r k d) = obj_set (val r) k d"
  and provisional_record_set [simp]: "provisional (record_set r k d) = provisional r"
  by (simp_all add: record_set_def)


section \<open>Invariants of the merge\<close>

lemma grows_refl [simp]: "grows c c"
  by (simp add: grows_def)

lemma grows_trans: "grows a b \<Longrightarrow> grows b c \<Longrightarrow> grows a c"
  by (auto simp: grows_def)

lemma grows_errors_add [simp]: "grows c (errors_add m c)"
  by (auto simp: grows_def)

lemma grows_record_missing [simp]: "grows c (record_missing p n c)"
  and grows_record_exists [simp]: "grows c (record_exists p n c)"
  by (simp_all add: grows_def)

lemma grows_pop: "grows (push_path k c) c' \<Longrightarrow> grows c (pop_path c')"
  by (simp add: grows_def)

lemma grows_merge_target_entry: "grows c (merge_target_entry t source name e c)"
  by (cases e) (simp add: merge_target_entry_def split: property.splits)

lemma grows_fold_target: "grows c (fold (merge_target_entry t source name) es c)"
proof (induction es arbitrary: c)
  case Nil
  show ?case by simp
next
  case (Cons e es)
  show ?case
    using grows_trans [OF grows_merge_target_entry Cons.IH] by simp
qed

lemma paths_fold_target:
  "paths (fold (merge_target_entry t source name) es ctx) = paths ctx"
  using grows_fold_target [of ctx t source name es] by (simp add: grows_def)

lemmas merge_source_entry_unfold = merge_source_entry.simps

lemmas merge_unfold = merge.simps

declare merge_source_entry.simps [simp del]

declare merge.simps [simp del]

lemma grows_merge:
  "grows ctx (snd (merge t target source name ctx))"
  "grows (snd state) (snd (merge_forEach t entries name state))"
  "grows (snd state) (snd (merge_source_entry t key v name state))"
proof (induction t target source name ctx and t entries name state and t key v name state
    rule: merge_merge_forEach_merge_source_entry.induct)
  case (1 t target sv sm name ctx)
  have "grows ctx (fold (merge_target_entry t (RecordTypeDescriptor sv sm) name) (val target) ctx)"
    by (rule grows_fold_target)
  from grows_trans [OF this] "1.IH" show ?case
    by (simp add: case_prod_beta merge_unfold)
next
  case (2 t name state)
  show ?case by simp
next
  case (3 t key v rest name state)
  from grows_trans [OF "3.IH"(1) "3.IH"(2)] show ?case by simp
next
  case (4 t key v name target ctx)
  show ?case
  proof (cases "get_property (val target) key")
    case Absent
    then show ?thesis by (simp add: merge_source_entry_unfold)
  next
    case Inherited
    then show ?thesis by (simp add: merge_source_entry_unfold)
  next
    case Some: (Own targetValue)
    show ?thesis
    proof (cases targetValue)
      case (StringTypeDescriptor s)
      with Some show ?thesis by (cases v) (simp_all add: merge_source_entry_unfold)
    next
      case (CallTypeDescriptor body)
      with Some show ?thesis by (cases v) (simp_all add: Let_def merge_source_entry_unfold)
    next
      case (RecordType tr)
      show ?thesis
      proof (cases v)
        case (RecordType sr)
        from "4.IH" [OF Some refl \<open>targetValue = RecordType tr\<close> RecordType]
        have "grows (push_path (key_text key) ctx)
            (snd (merge t tr sr name (push_path (key_text key) ctx)))" by simp
        from grows_pop [OF this] Some \<open>targetValue = RecordType tr\<close> RecordType
        show ?thesis by (simp add: case_prod_beta merge_source_entry_unfold)
      qed (use Some RecordType in \<open>simp_all add: merge_source_entry_unfold\<close>)
    qed
  qed
qed

lemma paths_merge_source_entry:
  "paths (snd (merge_source_entry t key v name state)) = paths (snd state)"
  using grows_merge(3) [of state t key v name] by (simp add: grows_def)

lemma errors_mono_merge_forEach:
  "m \<in> set (errors (snd state)) \<Longrightarrow> m \<in> set (errors (snd (merge_forEach t entries name state)))"
  using grows_merge(2) [of state t entries name] by (auto simp: grows_def)

lemma keeps_self: "map_of (val target) k = Some d \<Longrightarrow> keeps target k d"
  by (simp add: keeps_def)

lemma keeps_leaf: "keeps target k d \<Longrightarrow> kind d \<noteq> KindRecord \<Longrightarrow> map_of (val target) k = Some d"
  by (auto simp: keeps_def split: option.splits)

lemma keeps_clear:
  "keeps target k d \<Longrightarrow> keeps (RecordTypeDescriptor (val target) False) k d"
  by (simp add: keeps_def)

lemma keeps_merge_source_entry:
  "keeps target k d \<Longrightarrow> keeps (fst (merge_source_entry t key v name (target, ctx))) k d"
proof -
  assume k: "keeps target k d"
  show ?thesis
  proof (cases "get_property (val target) key")
    case Absent
    with k have "key \<noteq> k" by (auto simp: keeps_def get_property_Absent_iff)
    with k Absent show ?thesis by (simp add: keeps_def map_of_obj_set merge_source_entry_unfold)
  next
    case Inherited
    with k show ?thesis by (simp add: merge_source_entry_unfold)
  next
    case Some: (Own targetValue)
    then have own: "map_of (val target) key = Some targetValue"
      by (simp add: get_property_Own_iff)
    show ?thesis
    proof (cases targetValue)
      case (StringTypeDescriptor s)
      with Some k show ?thesis by (cases v) (simp_all add: merge_source_entry_unfold)
    next
      case (CallTypeDescriptor body)
      with Some k show ?thesis by (cases v) (simp_all add: Let_def merge_source_entry_unfold)
    next
      case (RecordType tr)
      with Some own k show ?thesis
        by (cases v)
          (auto simp: keeps_def map_of_obj_set case_prod_beta merge_source_entry_unfold
             split: option.splits)
    qed
  qed
qed

lemma keeps_merge_forEach:
  "keeps (fst state) k d \<Longrightarrow> keeps (fst (merge_forEach t entries name state)) k d"
proof (induction entries arbitrary: state)
  case Nil
  then show ?case by simp
next
  case (Cons e entries)
  obtain key v where e: "e = (key, v)" by (cases e)
  obtain target ctx where s: "state = (target, ctx)" by (cases state)
  from Cons.prems have "keeps (fst (merge_source_entry t key v name state)) k d"
    unfolding s by (simp add: keeps_merge_source_entry)
  from Cons.IH [OF this] show ?case by (simp add: e)
qed

lemma keeps_merge: "keeps target k d \<Longrightarrow> keeps (fst (merge t target source name ctx)) k d"
proof (cases source)
  case (RecordTypeDescriptor sv sm)
  assume "keeps target k d"
  then have "keeps (fst (merge_forEach t sv name
      (target, fold (merge_target_entry t (RecordTypeDescriptor sv sm) name) (val target) ctx))) k d"
    by (simp add: keeps_merge_forEach)
  then show ?thesis
    by (simp add: RecordTypeDescriptor case_prod_beta keeps_def merge_unfold)
qed

lemma merge_forEach_records:
  assumes step: "\<And>target' ctx'. keeps target' key d \<Longrightarrow> paths ctx' = ps \<Longrightarrow>
                 m \<in> set (errors (snd (merge_source_entry t key v name (target', ctx'))))"
  shows "(key, v) \<in> set entries \<Longrightarrow> keeps target key d \<Longrightarrow> paths ctx = ps \<Longrightarrow>
         m \<in> set (errors (snd (merge_forEach t entries name (target, ctx))))"
proof (induction entries arbitrary: target ctx)
  case Nil
  then show ?case by simp
next
  case (Cons e entries)
  obtain key' v' where e: "e = (key', v')" by (cases e)
  let ?s = "merge_source_entry t key' v' name (target, ctx)"
  have k1: "keeps (fst ?s) key d"
    using Cons.prems(2) by (rule keeps_merge_source_entry)
  have p1: "paths (snd ?s) = ps"
    using Cons.prems(3) by (simp add: paths_merge_source_entry)
  show ?case
  proof (cases "e = (key, v)")
    case True
    then have "m \<in> set (errors (snd ?s))"
      using step [OF Cons.prems(2,3)] e by simp
    then show ?thesis
      by (simp add: e errors_mono_merge_forEach)
  next
    case False
    with Cons.prems(1) have "(key, v) \<in> set entries" by simp
    from Cons.IH [OF this, of "fst ?s" "snd ?s"] k1 p1 show ?thesis
      by (simp add: e)
  qed
qed

lemma merge_records:
  assumes step: "\<And>target' ctx'. keeps target' key d \<Longrightarrow> paths ctx' = paths ctx \<Longrightarrow>
                 m \<in> set (errors (snd (merge_source_entry t key v name (target', ctx'))))"
    and "(key, v) \<in> set sv" and "keeps target key d"
  shows "m \<in> set (errors (snd (merge t target (RecordTypeDescriptor sv sm) name ctx)))"
proof -
  let ?c1 = "fold (merge_target_entry t (RecordTypeDescriptor sv sm) name) (val target) ctx"
  have "paths ?c1 = paths ctx"
    using grows_fold_target [of ctx t "RecordTypeDescriptor sv sm" name "val target"]
    by (simp add: grows_def)
  from merge_forEach_records [where ps = "paths ctx", OF step assms(2,3) this]
  show ?thesis by (simp add: merge_unfold case_prod_beta)
qed


lemma merge_source_entry_call:
  "map_of (val target) key = Some (CallTypeDescriptor tb) \<Longrightarrow>
   merge_source_entry t key (CallTypeDescriptor sb) name (target, ctx) =
     (target,
      if map name_of (filter isParamArgType tb) = map name_of (filter isParamArgType sb) then ctx
      else errors_add (t (args_is_different (pathOf ctx key)
                            (join '','' (map name_of (filter isParamArgType tb)))
                            (join '','' (map name_of (filter isParamArgType sb))))) ctx)"
  by (simp add: merge_source_entry_unfold Let_def arrayEq_def)

lemma param_names_eq: "map name_of (filter isParamArgType body) = param_names body"
  by (induction body rule: param_names.induct) simp_all




lemma grows_fold_merge:
  "grows (snd state)
     (snd (fold (\<lambda>(name, v) (prev, c). merge t prev v name c) typeNodes state))"
proof (induction typeNodes arbitrary: state)
  case Nil
  show ?case by simp
next
  case (Cons x xs)
  obtain name v where x: "x = (name, v)" by (cases x)
  obtain prev c where s: "state = (prev, c)" by (cases state)
  have "grows c (snd (merge t prev v name c))" by (rule grows_merge)
  from grows_trans [OF this Cons.IH [of "merge t prev v name c"]] show ?case
    by (simp add: x s)
qed

lemma grows_missing_forEach: "grows c (missing_forEach t names c)"
proof -
  have "grows c (fold (\<lambda>(path, e) c. errors_add (f path e) c) es c)" for f es
  proof (induction es arbitrary: c)
    case Nil
    show ?case by simp
  next
    case (Cons e es)
    obtain path en where e: "e = (path, en)" by (cases e)
    from grows_trans [OF grows_errors_add Cons.IH] show ?case by (simp add: e)
  qed
  then show ?thesis by (simp add: missing_forEach_def)
qed

text \<open>The equations that evaluate a run on a concrete input.\<close>

lemmas evaluation =
  gen_def unify_def fold_locales_def empty_context_def new_Set_def
  reduce_merge_def createMissingRecordTypeDescriptor_def createRecordTypeDescriptor_def
  createStringTypeDescriptor_def createCallTypeDescriptor_def
  merge_unfold merge_source_entry_unfold merge_target_entry_def record_set_def
  isMissingRecordTypeDescriptor_def record_missing_def record_exists_def pathOf_def
  getCurrentPath_def push_path_def pop_path_def missing_forEach_def offending_def diffArray_def
  arrayEq_def errors_add_def set_add_def get_property_def Object_prototype_names_def leaf_def
  braces_def Let_def

section \<open>Locale trees\<close>

lemma locale_tree_leaf: "locale_tree (leaf mcb s)"
  by (simp add: leaf_def createStringTypeDescriptor_def createCallTypeDescriptor_def
      split: option.splits)

lemma locale_record_record_set:
  "locale_record acc \<Longrightarrow> locale_tree d \<Longrightarrow> locale_record (record_set acc key d)"
  using set_obj_set [of "val acc" key d]
  by (cases acc) (auto simp: record_set_def distinct_keys_obj_set list_all_iff)

lemma locale_record_lookup:
  "locale_record target \<Longrightarrow> map_of (val target) key = Some d \<Longrightarrow> locale_tree d"
  by (cases target) (auto simp: list_all_iff dest: map_of_SomeD)

lemma locale_record_distinct: "locale_record r \<Longrightarrow> distinct (map fst (val r))"
  by (cases r) simp

lemma locale_record_entry: "locale_record r \<Longrightarrow> (k, d) \<in> set (val r) \<Longrightarrow> locale_tree d"
  by (cases r) (auto simp: list_all_iff)

lemma record_set_same: "map_of (val target) key = Some d \<Longrightarrow> record_set target key d = target"
  by (cases target) (simp add: record_set_def obj_set_same)

lemma locale_record_not_provisional: "locale_record target \<Longrightarrow> \<not> provisional target"
  by (cases target) simp

lemma locale_record_eq:
  "locale_record r \<Longrightarrow> r = RecordTypeDescriptor (val r) False"
  by (cases r) simp

lemma toTypeNode_locale_record:
  "toTypeNode mcb t node ctx = Inr (r, ctx') \<Longrightarrow>
     paths ctx' = paths ctx \<and> missing ctx' = missing ctx \<and> locale_record r"
  "toTypeNode_forEach mcb t entries acc ctx = Inr (r, ctx') \<Longrightarrow> locale_record acc \<Longrightarrow>
     paths ctx' = paths ctx \<and> missing ctx' = missing ctx \<and> locale_record r"
proof (induction mcb t node ctx and mcb t entries acc ctx arbitrary: r ctx' and r ctx'
    rule: toTypeNode_toTypeNode_forEach.induct)
  case (1 mcb t node ctx)
  from "1.prems" obtain entries where e: "Object_entries node = Inr entries"
    by (auto split: sum.splits)
  with "1.prems" "1.IH" [OF e, of r ctx'] show ?case
    by (simp add: createRecordTypeDescriptor_def)
next
  case (2 mcb t acc ctx)
  then show ?case by simp
next
  case (3 mcb t key v rest acc ctx)
  show ?case
  proof (cases "typeof v")
    case TypeofNumber
    with "3.prems" "3.IH"(1) [OF TypeofNumber, of r ctx'] show ?thesis
      by (simp add: locale_record_record_set locale_tree_leaf)
  next
    case TypeofString
    with "3.prems" "3.IH"(2) [OF TypeofString, of r ctx'] show ?thesis
      by (simp add: locale_record_record_set locale_tree_leaf)
  next
    case TypeofBoolean
    with "3.prems" "3.IH"(3) [OF TypeofBoolean, of r ctx'] show ?thesis
      by simp
  next
    case TypeofObject
    with "3.prems"(1) obtain r1 c1 where
      n: "toTypeNode mcb t v (push_path (key_text key) ctx) = Inr (r1, c1)"
      and f: "toTypeNode_forEach mcb t rest (record_set acc key (RecordType r1)) (pop_path c1) =
          Inr (r, ctx')"
      by (auto split: sum.splits)
    from "3.IH"(4) [OF TypeofObject n] have
      c1: "paths c1 = paths ctx @ [key_text key]" "missing c1 = missing ctx" "locale_record r1"
      by simp_all
    from "3.IH"(5) [OF TypeofObject n refl f] c1 "3.prems"(2) show ?thesis
      by (simp add: locale_record_record_set)
  qed
qed

lemma toTypeNodes_context:
  "toTypeNodes mcb t files ctx = Inr (typeNodes, ctx') \<Longrightarrow>
     paths ctx' = paths ctx \<and> missing ctx' = missing ctx \<and> map fst typeNodes = map fst files \<and>
     list_all (\<lambda>(name, r). locale_record r) typeNodes"
proof (induction files arbitrary: ctx typeNodes)
  case Nil
  then show ?case by simp
next
  case (Cons f files)
  obtain name v where f: "f = (name, v)" by (cases f)
  from Cons.prems obtain r c1 rs where
    n: "toTypeNode mcb t v ctx = Inr (r, c1)"
    and ns: "toTypeNodes mcb t files c1 = Inr (rs, ctx')"
    and tn: "typeNodes = (name, r) # rs"
    by (auto simp: f split: sum.splits)
  from toTypeNode_locale_record(1) [OF n] Cons.IH [OF ns] show ?case
    by (simp add: tn f)
qed

lemma merge_keeps_locale_record:
  "locale_record target \<Longrightarrow> fst (merge t target source name ctx) = target"
  "locale_record (fst state) \<Longrightarrow> fst (merge_forEach t entries name state) = fst state"
  "locale_record (fst state) \<Longrightarrow> fst (merge_source_entry t key v name state) = fst state"
proof (induction t target source name ctx and t entries name state and t key v name state
    rule: merge_merge_forEach_merge_source_entry.induct)
  case (1 t target sv sm name ctx)
  from "1.IH" "1.prems" have "fst (merge_forEach t sv name
      (target, fold (merge_target_entry t (RecordTypeDescriptor sv sm) name) (val target) ctx)) = target"
    by simp
  with "1.prems" show ?case
    by (cases target) (simp add: merge_unfold case_prod_beta)
next
  case (2 t name state)
  show ?case by simp
next
  case (3 t key v rest name state)
  from "3.IH"(1) [OF "3.prems"] have s: "fst (merge_source_entry t key v name state) = fst state" .
  with "3.IH"(2) "3.prems" show ?case by simp
next
  case (4 t key v name target ctx)
  from "4.prems" have lr: "locale_record target" by simp
  show ?case
  proof (cases "get_property (val target) key")
    case Absent
    with lr show ?thesis
      by (simp add: merge_source_entry_unfold isMissingRecordTypeDescriptor_def
          locale_record_not_provisional)
  next
    case Inherited
    then show ?thesis by (simp add: merge_source_entry_unfold)
  next
    case Some: (Own targetValue)
    then have own: "map_of (val target) key = Some targetValue"
      by (simp add: get_property_Own_iff)
    show ?thesis
    proof (cases targetValue)
      case (StringTypeDescriptor s)
      with Some show ?thesis by (cases v) (simp_all add: merge_source_entry_unfold)
    next
      case (CallTypeDescriptor body)
      with Some show ?thesis by (cases v) (simp_all add: merge_source_entry_unfold Let_def)
    next
      case (RecordType tr)
      show ?thesis
      proof (cases v)
        case (RecordType sr)
        from locale_record_lookup [OF lr own] \<open>targetValue = RecordType tr\<close>
        have "locale_record tr" by simp
        from "4.IH" [OF Some refl \<open>targetValue = RecordType tr\<close> RecordType this]
        have "fst (merge t tr sr name (push_path (key_text key) ctx)) = tr" .
        with Some own \<open>targetValue = RecordType tr\<close> RecordType show ?thesis
          by (simp add: merge_source_entry_unfold case_prod_beta record_set_same)
      qed (use Some RecordType in \<open>simp_all add: merge_source_entry_unfold\<close>)
    qed
  qed
qed

text \<open>The error set of a run is a set: its messages are distinct.\<close>

lemma grows_toTypeNode:
  "toTypeNode mcb t node ctx = Inr (r, ctx') \<Longrightarrow> grows ctx ctx'"
  "toTypeNode_forEach mcb t entries acc ctx = Inr (r, ctx') \<Longrightarrow> grows ctx ctx'"
proof (induction mcb t node ctx and mcb t entries acc ctx arbitrary: r ctx' and r ctx'
    rule: toTypeNode_toTypeNode_forEach.induct)
  case (1 mcb t node ctx)
  from "1.prems" obtain entries where e: "Object_entries node = Inr entries"
    by (auto split: sum.splits)
  with "1.prems" "1.IH" [OF e, of r ctx'] show ?case by simp
next
  case (2 mcb t acc ctx)
  then show ?case by simp
next
  case (3 mcb t key v rest acc ctx)
  show ?case
  proof (cases "typeof v")
    case TypeofNumber
    with "3.prems" "3.IH"(1) [OF TypeofNumber, of r ctx'] show ?thesis by simp
  next
    case TypeofString
    with "3.prems" "3.IH"(2) [OF TypeofString, of r ctx'] show ?thesis by simp
  next
    case TypeofBoolean
    with "3.prems" "3.IH"(3) [OF TypeofBoolean, of r ctx'] have
      "grows (errors_add (t (unexpected_value (key_text key) v)) ctx) ctx'" by simp
    from grows_trans [OF grows_errors_add this] show ?thesis .
  next
    case TypeofObject
    with "3.prems"(1) obtain r1 c1 where
      n: "toTypeNode mcb t v (push_path (key_text key) ctx) = Inr (r1, c1)"
      and f: "toTypeNode_forEach mcb t rest (record_set acc key (RecordType r1)) (pop_path c1) =
          Inr (r, ctx')"
      by (auto split: sum.splits)
    from "3.IH"(4) [OF TypeofObject n] have "grows ctx (pop_path c1)" by (rule grows_pop)
    from grows_trans [OF this "3.IH"(5) [OF TypeofObject n refl f]] show ?thesis .
  qed
qed

lemma grows_toTypeNodes:
  "toTypeNodes mcb t files ctx = Inr (typeNodes, ctx') \<Longrightarrow> grows ctx ctx'"
proof (induction files arbitrary: ctx typeNodes)
  case Nil
  then show ?case by simp
next
  case (Cons f files)
  obtain name v where f: "f = (name, v)" by (cases f)
  from Cons.prems obtain r c1 rs where
    n: "toTypeNode mcb t v ctx = Inr (r, c1)"
    and ns: "toTypeNodes mcb t files c1 = Inr (rs, ctx')"
    by (auto simp: f split: sum.splits)
  from grows_trans [OF grows_toTypeNode(1) [OF n] Cons.IH [OF ns]] show ?case .
qed

lemma unify_errors_distinct:
  assumes "unify mcb t files = Inr (typeNodes, merged, ctx)"
  shows "distinct (errors ctx)"
proof -
  from assms obtain c1 where
    tn: "toTypeNodes mcb t files empty_context = Inr (typeNodes, c1)"
    and c: "ctx = (if missing (snd (reduce_merge t typeNodes c1)) \<noteq> []
                  then missing_forEach t (new_Set (map fst files)) (snd (reduce_merge t typeNodes c1))
                  else snd (reduce_merge t typeNodes c1))"
    by (auto simp: unify_def Let_def case_prod_beta split: sum.splits)
  have g1: "grows empty_context c1" using tn by (rule grows_toTypeNodes)
  have g2: "grows c1 (snd (reduce_merge t typeNodes c1))"
    using grows_fold_merge [of "(createMissingRecordTypeDescriptor, c1)" t typeNodes]
    by (simp add: reduce_merge_def)
  have g3: "grows (snd (reduce_merge t typeNodes c1)) ctx"
    unfolding c by (simp add: grows_missing_forEach)
  from grows_trans [OF grows_trans [OF g1 g2] g3] show ?thesis
    by (simp add: grows_def empty_context_def)
qed

section \<open>A single locale\<close>

text \<open>
  A single locale whose raw dictionary holds only strings, numbers and nested dictionaries,
  and whose top-level keys are not inherited names, builds and folds without a diagnostic:
  the canonical schema is that locale's own tree and \<^verbatim>\<open>gen\<close> returns its output.
\<close>

lemma toTypeNode_plain:
  "plain_dict node \<Longrightarrow>
     \<exists>r. toTypeNode mcb t node ctx = Inr (r, ctx) \<and> \<not> provisional r \<and>
         distinct (map fst (val r)) \<and>
         (\<forall>entries. node = YObject entries \<longrightarrow>
            set (map fst (val r)) \<subseteq> set (map fst entries))"
  "list_all (\<lambda>(k, v). case v of
                  YString _ \<Rightarrow> True
                | YNumber _ \<Rightarrow> True
                | YObject _ \<Rightarrow> plain_dict v
                | _ \<Rightarrow> False) entries \<Longrightarrow>
   \<not> provisional acc \<Longrightarrow> distinct (map fst (val acc)) \<Longrightarrow>
     \<exists>r. toTypeNode_forEach mcb t entries acc ctx = Inr (r, ctx) \<and> \<not> provisional r \<and>
         distinct (map fst (val r)) \<and>
         set (map fst (val r)) \<subseteq> set (map fst (val acc)) \<union> set (map fst entries)"
proof (induction mcb t node ctx and mcb t entries acc ctx rule: toTypeNode_toTypeNode_forEach.induct)
  case (1 mcb t node ctx)
  from "1.prems" obtain entries where n: "node = YObject entries" by (cases node) simp_all
  with "1.prems" "1.IH" [of entries] show ?case
    by (simp add: createRecordTypeDescriptor_def)
next
  case (2 mcb t acc ctx)
  then show ?case by simp
next
  case (3 mcb t key v rest acc ctx)
  from "3.prems"(1) have rest: "list_all (\<lambda>(k, v). case v of
                  YString _ \<Rightarrow> True
                | YNumber _ \<Rightarrow> True
                | YObject _ \<Rightarrow> plain_dict v
                | _ \<Rightarrow> False) rest" by simp
  have d: "\<And>d. distinct (map fst (val (record_set acc key d)))"
    using "3.prems"(3) by (simp add: distinct_keys_obj_set)
  have p: "\<And>d. \<not> provisional (record_set acc key d)"
    using "3.prems"(2) by simp
  have k: "\<And>d. set (map fst (val (record_set acc key d))) = insert key (set (map fst (val acc)))"
    by (simp only: val_record_set set_keys_obj_set)
  show ?case
  proof (cases v)
    case (YString s)
    from "3.IH"(2) [OF _ rest p d] YString obtain r where
      "toTypeNode_forEach mcb t rest (record_set acc key (leaf mcb s)) ctx = Inr (r, ctx)"
      "\<not> provisional r" "distinct (map fst (val r))"
      "set (map fst (val r)) \<subseteq>
         set (map fst (val (record_set acc key (leaf mcb s)))) \<union> set (map fst rest)"
      by auto
    with YString show ?thesis unfolding k by (intro exI [of _ r]) auto
  next
    case (YNumber n)
    from "3.IH"(1) [OF _ rest p d] YNumber obtain r where
      "toTypeNode_forEach mcb t rest (record_set acc key (leaf mcb n)) ctx = Inr (r, ctx)"
      "\<not> provisional r" "distinct (map fst (val r))"
      "set (map fst (val r)) \<subseteq>
         set (map fst (val (record_set acc key (leaf mcb n)))) \<union> set (map fst rest)"
      by auto
    with YNumber show ?thesis unfolding k by (intro exI [of _ r]) auto
  next
    case (YObject es)
    with "3.prems"(1) have pv: "plain_dict v" by simp
    from "3.IH"(4) [OF _ pv] YObject obtain r where
      r: "toTypeNode mcb t v (push_path (key_text key) ctx) = Inr (r, push_path (key_text key) ctx)"
      by auto
    from "3.IH"(5) [OF _ r refl rest p d] YObject obtain r' where
      "toTypeNode_forEach mcb t rest (record_set acc key (RecordType r)) ctx = Inr (r', ctx)"
      "\<not> provisional r'" "distinct (map fst (val r'))"
      "set (map fst (val r')) \<subseteq>
         set (map fst (val (record_set acc key (RecordType r)))) \<union> set (map fst rest)"
      by auto
    with YObject r show ?thesis unfolding k by (intro exI [of _ r']) auto
  qed (use "3.prems"(1) in simp_all)
qed

lemma merge_forEach_adopt:
  "distinct (map fst (acc @ es)) \<Longrightarrow> list_all (\<lambda>(k, d). \<not> inherited_name k) es \<Longrightarrow>
   merge_forEach t es name (RecordTypeDescriptor acc True, ctx) =
     (RecordTypeDescriptor (acc @ es) True, ctx)"
proof (induction es arbitrary: acc)
  case Nil
  show ?case by simp
next
  case (Cons e es)
  obtain key v where e: "e = (key, v)" by (cases e)
  from Cons.prems have "key \<notin> fst ` set acc" by (auto simp: e)
  then have n: "map_of acc key = None" by (simp add: map_of_eq_None_iff)
  from Cons.prems(2) have o: "\<not> inherited_name key" by (simp add: e)
  have "merge_source_entry t key v name (RecordTypeDescriptor acc True, ctx) =
      (RecordTypeDescriptor (acc @ [(key, v)]) True, ctx)"
    using n o by (simp add: merge_source_entry_unfold isMissingRecordTypeDescriptor_def
        record_set_def obj_set_absent get_property_None)
  moreover from Cons.prems have "distinct (map fst ((acc @ [(key, v)]) @ es))" by (simp add: e)
  moreover from Cons.prems(2) have "list_all (\<lambda>(k, d). \<not> inherited_name k) es" by (simp add: e)
  ultimately show ?case using Cons.IH [of "acc @ [(key, v)]"] by (simp add: e)
qed

lemma merge_into_provisional:
  "distinct (map fst sv) \<Longrightarrow> list_all (\<lambda>(k, d). \<not> inherited_name k) sv \<Longrightarrow>
   merge t createMissingRecordTypeDescriptor (RecordTypeDescriptor sv sm) name ctx =
     (RecordTypeDescriptor sv False, ctx)"
  using merge_forEach_adopt [of "[]" sv t name ctx]
  by (simp add: merge_unfold createMissingRecordTypeDescriptor_def)

lemma gen_single:
  assumes "toTypeNode mcb t raw empty_context = Inr (r, empty_context)"
    and "\<not> provisional r" and "distinct (map fst (val r))"
    and "list_all (\<lambda>(k, d). \<not> inherited_name k) (val r)"
  shows "unify mcb t [(name, raw)] = Inr ([(name, r)], r, empty_context)"
proof -
  obtain sv sm where r: "r = RecordTypeDescriptor sv sm" by (cases r)
  with assms(2,3,4) have "merge t createMissingRecordTypeDescriptor r name empty_context =
      (r, empty_context)"
    by (simp add: merge_into_provisional)
  with assms(1) show ?thesis
    by (simp add: unify_def reduce_merge_def empty_context_def)
qed

lemma single_locale_succeeds:
  assumes "plain_dict (YObject entries)"
    and "list_all (\<lambda>(k, v). \<not> inherited_name k) entries"
  shows "\<exists>tree. toTypeNode matchCallBody t (YObject entries) empty_context =
                  Inr (tree, empty_context) \<and>
           unify matchCallBody t [(name, YObject entries)] =
             Inr ([(name, tree)], tree, empty_context) \<and>
           errors empty_context = [] \<and>
           (\<exists>out. gen matchCallBody t printCode printLocale [(name, YObject entries)] target lazy
                    defaultLanguage = Inr out)"
proof -
  from toTypeNode_plain(1) [OF assms(1), of matchCallBody t empty_context] obtain tree where
    tr: "toTypeNode matchCallBody t (YObject entries) empty_context = Inr (tree, empty_context)"
    "\<not> provisional tree" "distinct (map fst (val tree))"
    and sub: "set (map fst (val tree)) \<subseteq> set (map fst entries)" by blast
  from sub assms(2) have "list_all (\<lambda>(k, d). \<not> inherited_name k) (val tree)"
    by (fastforce simp: list_all_iff image_iff subset_iff)
  from gen_single [OF tr this] have u: "unify matchCallBody t [(name, YObject entries)] =
      Inr ([(name, tree)], tree, empty_context)" .
  have e: "errors empty_context = []" by (simp add: empty_context_def)
  have "\<exists>out. gen matchCallBody t printCode printLocale [(name, YObject entries)] target lazy
      defaultLanguage = Inr out"
    by (simp add: gen_def u e Let_def)
  with tr(1) u e show ?thesis by blast
qed

section \<open>The report\<close>

lemma errors_missing_forEach:
  "set (errors (fold (\<lambda>(path, e) c. errors_add (f path e) c) es ctx)) =
     set (errors ctx) \<union> (\<lambda>(path, e). f path e) ` set es"
  by (induction es arbitrary: ctx) (auto simp: case_prod_beta)

lemma missing_missing_forEach: "missing (missing_forEach t names ctx) = missing ctx"
proof -
  have "missing (fold (\<lambda>(path, e) c. errors_add (f path e) c) es c) = missing c" for f es c
    by (induction es arbitrary: c) (simp_all add: case_prod_beta)
  then show ?thesis by (simp add: missing_forEach_def)
qed

lemma set_diffArray: "set (diffArray a b) = set a - set b"
  by (auto simp: diffArray_def)

lemma distinct_diffArray: "distinct a \<Longrightarrow> distinct (diffArray a b)"
  by (simp add: diffArray_def)

lemma set_new_Set: "set (new_Set xs) = set xs"
proof -
  have "set (fold set_add xs acc) = set xs \<union> set acc" for acc
    by (induction xs arbitrary: acc) auto
  then show ?thesis by (simp add: new_Set_def)
qed

lemma distinct_new_Set: "distinct (new_Set xs)"
proof -
  have "distinct acc \<Longrightarrow> distinct (fold set_add xs acc)" for acc
    by (induction xs arbitrary: acc) auto
  then show ?thesis by (simp add: new_Set_def)
qed

lemma errorMessage_lines:
  "\<exists>lines. errorMessage errs = newline @ ''Errors:'' @ newline @ join newline lines @ newline \<and>
      length lines = length errs \<and>
      (\<forall>i < length errs. lines ! i = ''  '' @ show_nat (i + 1) @ ''. '' @ errs ! i)"
  by (intro exI [of _ "map (\<lambda>(idx, msg). ''  '' @ show_nat (idx + 1) @ ''. '' @ msg)
                     (zip [0..<length errs] errs)"])
    (simp add: errorMessage_def)

section \<open>The ledger of a pair of locales\<close>

lemma set_missing_record_missing:
  assumes "snd ` set (missing c) \<subseteq> {\<lparr>entry_exists = [], entry_missing = [n]\<rparr>}"
  shows "set (missing (record_missing p n c)) =
           insert (p, \<lparr>entry_exists = [], entry_missing = [n]\<rparr>) (set (missing c))"
proof (cases "map_of (missing c) p")
  case None
  then show ?thesis by (simp add: record_missing_def obj_set_absent)
next
  case (Some m)
  then have in_c: "(p, m) \<in> set (missing c)" by (rule map_of_SomeD)
  with assms have m: "m = \<lparr>entry_exists = [], entry_missing = [n]\<rparr>" by force
  have "m\<lparr>entry_missing := set_add n (entry_missing m)\<rparr> = m"
    by (simp add: m set_add_def)
  with Some have "missing (record_missing p n c) = missing c"
    by (simp add: record_missing_def obj_set_same)
  with in_c m show ?thesis by auto
qed

lemma set_missing_record_exists:
  assumes "snd ` set (missing c) \<subseteq> {\<lparr>entry_exists = [n], entry_missing = []\<rparr>}"
  shows "set (missing (record_exists p n c)) =
           insert (p, \<lparr>entry_exists = [n], entry_missing = []\<rparr>) (set (missing c))"
proof (cases "map_of (missing c) p")
  case None
  then show ?thesis by (simp add: record_exists_def obj_set_absent)
next
  case (Some m)
  then have in_c: "(p, m) \<in> set (missing c)" by (rule map_of_SomeD)
  with assms have m: "m = \<lparr>entry_exists = [n], entry_missing = []\<rparr>" by force
  have "m\<lparr>entry_exists := set_add n (entry_exists m)\<rparr> = m"
    by (simp add: m set_add_def)
  with Some have "missing (record_exists p n c) = missing c"
    by (simp add: record_exists_def obj_set_same)
  with in_c m show ?thesis by auto
qed

lemma distinct_missing_record:
  "distinct (map fst (missing c)) \<Longrightarrow> distinct (map fst (missing (record_missing p n c)))"
  "distinct (map fst (missing c)) \<Longrightarrow> distinct (map fst (missing (record_exists p n c)))"
  by (simp_all add: record_missing_def record_exists_def distinct_keys_obj_set
      split: option.splits)

lemma distinct_ledger_target_entry:
  "distinct (map fst (missing c)) \<Longrightarrow>
   distinct (map fst (missing (merge_target_entry t source name e c)))"
  by (cases e) (simp add: merge_target_entry_def distinct_missing_record split: property.splits)

lemma distinct_ledger_fold_target:
  "distinct (map fst (missing c)) \<Longrightarrow>
   distinct (map fst (missing (fold (merge_target_entry t source name) es c)))"
  by (induction es arbitrary: c) (simp_all add: distinct_ledger_target_entry)

lemma distinct_ledger_merge:
  "distinct (map fst (missing ctx)) \<Longrightarrow>
     distinct (map fst (missing (snd (merge t target source name ctx))))"
  "distinct (map fst (missing (snd state))) \<Longrightarrow>
     distinct (map fst (missing (snd (merge_forEach t entries name state))))"
  "distinct (map fst (missing (snd state))) \<Longrightarrow>
     distinct (map fst (missing (snd (merge_source_entry t key v name state))))"
proof (induction t target source name ctx and t entries name state and t key v name state
    rule: merge_merge_forEach_merge_source_entry.induct)
  case (1 t target sv sm name ctx)
  from "1.prems" have "distinct (map fst (missing
      (fold (merge_target_entry t (RecordTypeDescriptor sv sm) name) (val target) ctx)))"
    by (rule distinct_ledger_fold_target)
  with "1.IH" show ?case by (simp add: case_prod_beta merge_unfold)
next
  case (2 t name state)
  then show ?case by simp
next
  case (3 t key v rest name state)
  from "3.IH"(2) [OF "3.IH"(1) [OF "3.prems"]] show ?case by simp
next
  case (4 t key v name target ctx)
  from "4.prems" have d: "distinct (map fst (missing ctx))" by simp
  show ?case
  proof (cases "get_property (val target) key")
    case Absent
    with d show ?thesis by (simp add: merge_source_entry_unfold distinct_missing_record)
  next
    case Inherited
    with d show ?thesis by (simp add: merge_source_entry_unfold)
  next
    case Some: (Own targetValue)
    show ?thesis
    proof (cases targetValue)
      case (StringTypeDescriptor s)
      with Some d show ?thesis by (cases v) (simp_all add: merge_source_entry_unfold)
    next
      case (CallTypeDescriptor body)
      with Some d show ?thesis by (cases v) (simp_all add: Let_def merge_source_entry_unfold)
    next
      case (RecordType tr)
      show ?thesis
      proof (cases v)
        case (RecordType sr)
        from d have "distinct (map fst (missing (push_path (key_text key) ctx)))" by simp
        from "4.IH" [OF Some refl \<open>targetValue = RecordType tr\<close> RecordType this]
          Some \<open>targetValue = RecordType tr\<close> RecordType
        show ?thesis by (simp add: case_prod_beta merge_source_entry_unfold)
      qed (use Some RecordType d in \<open>simp_all add: merge_source_entry_unfold\<close>)
    qed
  qed
qed

lemma covers_kind: "covers big small \<Longrightarrow> kind big = kind small"
  by (cases small; cases big) simp_all

lemma covers_record_entry:
  "covers_record big small \<Longrightarrow> (k, d) \<in> set (val small) \<Longrightarrow>
     \<exists>d'. map_of (val big) k = Some d' \<and> covers d' d"
  by (cases small) (auto simp: list_all_iff split: option.splits)

lemma covers_record_keys:
  "covers_record big small \<Longrightarrow> set (map fst (val small)) \<subseteq> set (map fst (val big))"
proof
  fix k
  assume c: "covers_record big small" and "k \<in> set (map fst (val small))"
  then obtain d where "(k, d) \<in> set (val small)" by auto
  from covers_record_entry [OF c this] obtain d' where "map_of (val big) k = Some d'" by auto
  then have "(k, d') \<in> set (val big)" by (rule map_of_SomeD)
  then show "k \<in> set (map fst (val big))" by force
qed

lemma absent_record_by_big:
  assumes "locale_record big" and "locale_record small" and "covers_record big small"
  shows "set (absent_record ps big small) = set (concat (map (absent_over ps small) (val big)))"
proof -
  obtain sv sm where s: "small = RecordTypeDescriptor sv sm" by (cases small)
  note db = locale_record_distinct [OF assms(1)]
  from locale_record_distinct [OF assms(2)] have ds: "distinct (map fst sv)" by (simp add: s)
  show ?thesis
  proof (intro set_eqI iffI)
    fix a
    assume "a \<in> set (absent_record ps big small)"
    then consider k where "a = (ps, k)" "k \<in> fst ` set (val big)" "map_of sv k = None"
      | k d d' where "(k, d) \<in> set sv" "map_of (val big) k = Some d'"
          "a \<in> set (absent (ps @ [key_text k]) d' d)"
      by (auto simp: s split: option.splits) metis
    then show "a \<in> set (concat (map (absent_over ps small) (val big)))"
    proof cases
      case 1
      from 1(2) obtain d' where "(k, d') \<in> set (val big)" by auto
      with 1(1,3) show ?thesis
        by (auto simp: absent_over_def s intro!: bexI [of _ "(k, d')"])
    next
      case 2
      from 2(2) have "(k, d') \<in> set (val big)" by (rule map_of_SomeD)
      moreover from 2(1) ds have "map_of sv k = Some d" by simp
      ultimately show ?thesis
        using 2(3) by (auto simp: absent_over_def s intro!: bexI [of _ "(k, d')"])
    qed
  next
    fix a
    assume "a \<in> set (concat (map (absent_over ps small) (val big)))"
    then obtain k d' where kd: "(k, d') \<in> set (val big)" and a: "a \<in> set (absent_over ps small (k, d'))"
      by auto
    from kd db have mb: "map_of (val big) k = Some d'" by simp
    show "a \<in> set (absent_record ps big small)"
    proof (cases "map_of sv k")
      case None
      with a have "a = (ps, k)" by (simp add: absent_over_def s)
      with None kd show ?thesis by (force simp: s)
    next
      case (Some d)
      then have "(k, d) \<in> set sv" by (rule map_of_SomeD)
      moreover from a Some have "a \<in> set (absent (ps @ [key_text k]) d' d)"
        by (simp add: absent_over_def s)
      ultimately show ?thesis using mb by (force simp: s)
    qed
  qed
qed

text \<open>
  The ledger after a \<^verbatim>\<open>merge\<close> whose target covers the source, and after one whose
  source covers the target.
\<close>

lemma fold_target_absent:
  assumes "list_all (\<lambda>k. map_of (val source) k = None \<longrightarrow> \<not> inherited_name k) (map fst es)"
    and "snd ` set (missing ctx) \<subseteq> {\<lparr>entry_exists = [], entry_missing = [name]\<rparr>}"
  shows "set (missing (fold (merge_target_entry t source name) es ctx)) =
           set (missing ctx) \<union>
           (\<lambda>k. (dotted (paths ctx, k), \<lparr>entry_exists = [], entry_missing = [name]\<rparr>)) `
             {k \<in> set (map fst es). map_of (val source) k = None}"
  using assms
proof (induction es arbitrary: ctx)
  case Nil
  show ?case by simp
next
  case (Cons e es)
  obtain k v where e: "e = (k, v)" by (cases e)
  let ?E = "\<lparr>entry_exists = [], entry_missing = [name]\<rparr>"
  let ?c = "merge_target_entry t source name (k, v) ctx"
  have p: "paths ?c = paths ctx"
    using grows_merge_target_entry [of ctx t source name "(k, v)"] by (simp add: grows_def)
  have m: "set (missing ?c) =
      set (missing ctx) \<union> (if map_of (val source) k = None then {(dotted (paths ctx, k), ?E)} else {})"
  proof (cases "map_of (val source) k")
    case None
    with Cons.prems(1) have "get_property (val source) k = Absent"
      by (simp add: e get_property_None)
    with None show ?thesis
      by (simp add: e merge_target_entry_def set_missing_record_missing [OF Cons.prems(2)]
          pathOf_dotted)
  next
    case (Some sv)
    then show ?thesis by (simp add: e merge_target_entry_def)
  qed
  with Cons.prems(2) have inv: "snd ` set (missing ?c) \<subseteq> {?E}" by auto
  from Cons.prems(1) have rest:
    "list_all (\<lambda>k. map_of (val source) k = None \<longrightarrow> \<not> inherited_name k) (map fst es)"
    by simp
  from Cons.IH [OF rest inv] m show ?case
    unfolding p e by auto
qed

lemma ledger_target_covers:
  "locale_record target \<Longrightarrow> covers_record target source \<Longrightarrow>
   list_all (\<lambda>a. \<not> inherited_name (snd a)) (absent_record (paths ctx) target source) \<Longrightarrow>
   snd ` set (missing ctx) \<subseteq> {\<lparr>entry_exists = [], entry_missing = [name]\<rparr>} \<Longrightarrow>
     set (missing (snd (merge t target source name ctx))) =
       set (missing ctx) \<union>
       (\<lambda>a. (dotted a, \<lparr>entry_exists = [], entry_missing = [name]\<rparr>)) `
         set (absent_record (paths ctx) target source)"
  "locale_record (fst state) \<Longrightarrow>
   list_all (\<lambda>(k, d). case map_of (val (fst state)) k of
                        None \<Rightarrow> False | Some d' \<Rightarrow> covers d' d) entries \<Longrightarrow>
   list_all (\<lambda>a. \<not> inherited_name (snd a))
     (concat (map (absent_under (paths (snd state)) (fst state)) entries)) \<Longrightarrow>
   snd ` set (missing (snd state)) \<subseteq> {\<lparr>entry_exists = [], entry_missing = [name]\<rparr>} \<Longrightarrow>
     set (missing (snd (merge_forEach t entries name state))) =
       set (missing (snd state)) \<union>
       (\<lambda>a. (dotted a, \<lparr>entry_exists = [], entry_missing = [name]\<rparr>)) `
         set (concat (map (absent_under (paths (snd state)) (fst state)) entries))"
  "locale_record (fst state) \<Longrightarrow>
   (case map_of (val (fst state)) key of None \<Rightarrow> False | Some d' \<Rightarrow> covers d' v) \<Longrightarrow>
   list_all (\<lambda>a. \<not> inherited_name (snd a))
     (absent_under (paths (snd state)) (fst state) (key, v)) \<Longrightarrow>
   snd ` set (missing (snd state)) \<subseteq> {\<lparr>entry_exists = [], entry_missing = [name]\<rparr>} \<Longrightarrow>
     set (missing (snd (merge_source_entry t key v name state))) =
       set (missing (snd state)) \<union>
       (\<lambda>a. (dotted a, \<lparr>entry_exists = [], entry_missing = [name]\<rparr>)) `
         set (absent_under (paths (snd state)) (fst state) (key, v))"
proof (induction t target source name ctx and t entries name state and t key v name state
    rule: merge_merge_forEach_merge_source_entry.induct)
  case (1 t target sv sm name ctx)
  let ?E = "\<lparr>entry_exists = [], entry_missing = [name]\<rparr>"
  let ?src = "RecordTypeDescriptor sv sm"
  let ?c1 = "fold (merge_target_entry t ?src name) (val target) ctx"
  have top:
    "list_all (\<lambda>k. map_of (val ?src) k = None \<longrightarrow> \<not> inherited_name k) (map fst (val target))"
    unfolding list_all_iff
  proof (intro ballI impI)
    fix k
    assume "k \<in> set (map fst (val target))" and "map_of (val ?src) k = None"
    then have mem: "(paths ctx, k) \<in> set (absent_record (paths ctx) target ?src)" by simp
    from "1.prems"(3) have "\<forall>a \<in> set (absent_record (paths ctx) target ?src).
        \<not> inherited_name (snd a)"
      by (simp only: list_all_iff)
    from bspec [OF this mem] show "\<not> inherited_name k" by simp
  qed
  have m1: "set (missing ?c1) =
      set (missing ctx) \<union>
      (\<lambda>k. (dotted (paths ctx, k), ?E)) ` {k \<in> set (map fst (val target)). map_of sv k = None}"
    using fold_target_absent [OF top "1.prems"(4), of t] by simp
  with "1.prems"(4) have inv1: "snd ` set (missing ?c1) \<subseteq> {?E}" by auto
  have p1: "paths ?c1 = paths ctx" by (rule paths_fold_target)
  from "1.prems"(2) have cov: "list_all (\<lambda>(k, d). case map_of (val target) k of
      None \<Rightarrow> False | Some d' \<Rightarrow> covers d' d) sv" by simp
  from "1.prems"(3) have nest: "list_all (\<lambda>a. \<not> inherited_name (snd a))
      (concat (map (absent_under (paths ctx) target) sv))" by simp
  have "set (missing (snd (merge_forEach t sv name (target, ?c1)))) =
      set (missing ?c1) \<union>
      (\<lambda>a. (dotted a, ?E)) ` set (concat (map (absent_under (paths ctx) target) sv))"
    using "1.IH" "1.prems"(1) cov nest inv1 by (simp add: p1)
  with m1 show ?case
    by (simp add: merge_unfold case_prod_beta image_Un image_image Un_assoc)
next
  case (2 t name state)
  show ?case by simp
next
  case (3 t key v rest name state)
  let ?E = "\<lparr>entry_exists = [], entry_missing = [name]\<rparr>"
  let ?s = "merge_source_entry t key v name state"
  have f: "fst ?s = fst state"
    using "3.prems"(1) by (rule merge_keeps_locale_record)
  have p: "paths (snd ?s) = paths (snd state)" by (rule paths_merge_source_entry)
  from "3.prems" have h1: "set (missing (snd ?s)) =
      set (missing (snd state)) \<union>
      (\<lambda>a. (dotted a, ?E)) ` set (absent_under (paths (snd state)) (fst state) (key, v))"
    by (intro "3.IH"(1)) simp_all
  with "3.prems"(4) have inv: "snd ` set (missing (snd ?s)) \<subseteq> {?E}" by auto
  from "3.prems" f p inv have "set (missing (snd (merge_forEach t rest name ?s))) =
      set (missing (snd ?s)) \<union>
      (\<lambda>a. (dotted a, ?E)) ` set (concat (map (absent_under (paths (snd state)) (fst state)) rest))"
    using "3.IH"(2) by simp
  with h1 show ?case by (simp add: image_Un Un_assoc)
next
  case (4 t key v name target ctx)
  let ?E = "\<lparr>entry_exists = [], entry_missing = [name]\<rparr>"
  from "4.prems"(1) have lr: "locale_record target" by simp
  from "4.prems"(2) obtain d' where own: "map_of (val target) key = Some d'" and cov: "covers d' v"
    by (auto split: option.splits)
  then have Some: "get_property (val target) key = Own d'" by simp
  show ?case
  proof (cases v)
    case (StringTypeDescriptor s)
    with cov have "kind d' = KindString" by simp
    then obtain s' where "d' = StringTypeDescriptor s'" by (cases d') simp_all
    with Some own StringTypeDescriptor show ?thesis by (simp add: merge_source_entry_unfold)
  next
    case (CallTypeDescriptor body)
    with cov have "kind d' = KindCall" by simp
    then obtain body' where "d' = CallTypeDescriptor body'" by (cases d') simp_all
    with Some own CallTypeDescriptor show ?thesis
      by (simp add: merge_source_entry_unfold Let_def)
  next
    case (RecordType sr)
    with cov obtain tr where d': "d' = RecordType tr" and cr: "covers_record tr sr"
      by (cases d') simp_all
    from locale_record_lookup [OF lr own] d' have ltr: "locale_record tr" by simp
    from "4.prems"(3) own d' RecordType have o: "list_all (\<lambda>a. \<not> inherited_name (snd a))
        (absent_record (paths (push_path (key_text key) ctx)) tr sr)" by simp
    from "4.prems"(4) have inv: "snd ` set (missing (push_path (key_text key) ctx)) \<subseteq> {?E}"
      by simp
    from "4.IH" [OF Some refl d' RecordType ltr cr o inv]
    have "set (missing (snd (merge t tr sr name (push_path (key_text key) ctx)))) =
        set (missing ctx) \<union> (\<lambda>a. (dotted a, ?E)) ` set (absent_record (paths ctx @ [key_text key]) tr sr)"
      by simp
    with Some own d' RecordType show ?thesis
      by (simp add: merge_source_entry_unfold case_prod_beta)
  qed
qed

lemma fold_target_covered:
  "list_all (\<lambda>(k, d). case map_of (val source) k of None \<Rightarrow> False | Some d' \<Rightarrow> covers d' d) es \<Longrightarrow>
   fold (merge_target_entry t source name) es ctx = ctx"
proof (induction es)
  case Nil
  show ?case by simp
next
  case (Cons e es)
  obtain k d where e: "e = (k, d)" by (cases e)
  from Cons.prems obtain d' where "map_of (val source) k = Some d'" "covers d' d"
    by (auto simp: e split: option.splits)
  then have "merge_target_entry t source name e ctx = ctx"
    by (simp add: e merge_target_entry_def covers_kind)
  with Cons show ?case by simp
qed

lemma ledger_source_covers:
  "locale_record target \<Longrightarrow> locale_record source \<Longrightarrow> covers_record source target \<Longrightarrow>
   list_all (\<lambda>a. \<not> inherited_name (snd a)) (absent_record (paths ctx) source target) \<Longrightarrow>
   snd ` set (missing ctx) \<subseteq> {\<lparr>entry_exists = [name], entry_missing = []\<rparr>} \<Longrightarrow>
     set (missing (snd (merge t target source name ctx))) =
       set (missing ctx) \<union>
       (\<lambda>a. (dotted a, \<lparr>entry_exists = [name], entry_missing = []\<rparr>)) `
         set (absent_record (paths ctx) source target)"
  "locale_record (fst state) \<Longrightarrow>
   list_all (\<lambda>(k, d'). locale_tree d' \<and>
               (case map_of (val (fst state)) k of None \<Rightarrow> True | Some d \<Rightarrow> covers d' d)) entries \<Longrightarrow>
   list_all (\<lambda>a. \<not> inherited_name (snd a))
     (concat (map (absent_over (paths (snd state)) (fst state)) entries)) \<Longrightarrow>
   snd ` set (missing (snd state)) \<subseteq> {\<lparr>entry_exists = [name], entry_missing = []\<rparr>} \<Longrightarrow>
     set (missing (snd (merge_forEach t entries name state))) =
       set (missing (snd state)) \<union>
       (\<lambda>a. (dotted a, \<lparr>entry_exists = [name], entry_missing = []\<rparr>)) `
         set (concat (map (absent_over (paths (snd state)) (fst state)) entries))"
  "locale_record (fst state) \<Longrightarrow> locale_tree v \<Longrightarrow>
   (case map_of (val (fst state)) key of None \<Rightarrow> True | Some d \<Rightarrow> covers v d) \<Longrightarrow>
   list_all (\<lambda>a. \<not> inherited_name (snd a))
     (absent_over (paths (snd state)) (fst state) (key, v)) \<Longrightarrow>
   snd ` set (missing (snd state)) \<subseteq> {\<lparr>entry_exists = [name], entry_missing = []\<rparr>} \<Longrightarrow>
     set (missing (snd (merge_source_entry t key v name state))) =
       set (missing (snd state)) \<union>
       (\<lambda>a. (dotted a, \<lparr>entry_exists = [name], entry_missing = []\<rparr>)) `
         set (absent_over (paths (snd state)) (fst state) (key, v))"
proof (induction t target source name ctx and t entries name state and t key v name state
    rule: merge_merge_forEach_merge_source_entry.induct)
  case (1 t target sv sm name ctx)
  let ?E = "\<lparr>entry_exists = [name], entry_missing = []\<rparr>"
  let ?src = "RecordTypeDescriptor sv sm"
  have "list_all (\<lambda>(k, d). case map_of (val ?src) k of None \<Rightarrow> False | Some d' \<Rightarrow> covers d' d)
      (val target)"
    using "1.prems"(3) by (cases target) simp
  then have c1: "fold (merge_target_entry t ?src name) (val target) ctx = ctx"
    by (rule fold_target_covered)
  have by_big: "set (absent_record (paths ctx) ?src target) =
      set (concat (map (absent_over (paths ctx) target) sv))"
    using absent_record_by_big [OF "1.prems"(2,1,3), of "paths ctx"] by simp
  from "1.prems"(2) have ds: "distinct (map fst sv)" by simp
  have ent: "list_all (\<lambda>(k, d'). locale_tree d' \<and>
      (case map_of (val target) k of None \<Rightarrow> True | Some d \<Rightarrow> covers d' d)) sv"
    unfolding list_all_iff
  proof (intro ballI, clarify, intro conjI)
    fix k d'
    assume kd: "(k, d') \<in> set sv"
    with "1.prems"(2) show "locale_tree d'" by (auto simp: list_all_iff)
    show "case map_of (val target) k of None \<Rightarrow> True | Some d \<Rightarrow> covers d' d"
    proof (cases "map_of (val target) k")
      case None
      then show ?thesis by simp
    next
      case (Some d)
      then have "(k, d) \<in> set (val target)" by (rule map_of_SomeD)
      from covers_record_entry [OF "1.prems"(3) this] obtain d'' where
        "map_of sv k = Some d''" "covers d'' d" by auto
      moreover from kd ds have "map_of sv k = Some d'" by simp
      ultimately show ?thesis using Some by simp
    qed
  qed
  from "1.prems"(4) have ord: "list_all (\<lambda>a. \<not> inherited_name (snd a))
      (concat (map (absent_over (paths ctx) target) sv))"
    unfolding list_all_iff by_big [symmetric] .
  have "set (missing (snd (merge_forEach t sv name (target, ctx)))) =
      set (missing ctx) \<union>
      (\<lambda>a. (dotted a, ?E)) ` set (concat (map (absent_over (paths ctx) target) sv))"
    using "1.IH" "1.prems"(1,5) ent ord by (simp add: c1)
  then show ?case
    unfolding by_big by (simp add: merge_unfold case_prod_beta c1)
next
  case (2 t name state)
  show ?case by simp
next
  case (3 t key v rest name state)
  let ?E = "\<lparr>entry_exists = [name], entry_missing = []\<rparr>"
  let ?s = "merge_source_entry t key v name state"
  have f: "fst ?s = fst state"
    using "3.prems"(1) by (rule merge_keeps_locale_record)
  have p: "paths (snd ?s) = paths (snd state)" by (rule paths_merge_source_entry)
  from "3.prems" have h1: "set (missing (snd ?s)) =
      set (missing (snd state)) \<union>
      (\<lambda>a. (dotted a, ?E)) ` set (absent_over (paths (snd state)) (fst state) (key, v))"
    by (intro "3.IH"(1)) simp_all
  with "3.prems"(4) have inv: "snd ` set (missing (snd ?s)) \<subseteq> {?E}" by auto
  from "3.prems" f p inv have "set (missing (snd (merge_forEach t rest name ?s))) =
      set (missing (snd ?s)) \<union>
      (\<lambda>a. (dotted a, ?E)) ` set (concat (map (absent_over (paths (snd state)) (fst state)) rest))"
    using "3.IH"(2) by simp
  with h1 show ?case by (simp add: image_Un Un_assoc)
next
  case (4 t key v name target ctx)
  let ?E = "\<lparr>entry_exists = [name], entry_missing = []\<rparr>"
  from "4.prems"(1) have lr: "locale_record target" by simp
  show ?case
  proof (cases "map_of (val target) key")
    case None
    with "4.prems"(4) have "\<not> inherited_name key" by (simp add: absent_over_def)
    with None have "get_property (val target) key = Absent" by (simp add: get_property_None)
    with None lr "4.prems"(5) show ?thesis
      by (simp add: merge_source_entry_unfold isMissingRecordTypeDescriptor_def
          locale_record_not_provisional set_missing_record_exists pathOf_dotted absent_over_def)
  next
    case own: (Some d)
    with "4.prems"(3) have cov: "covers v d" by simp
    from own have Some: "get_property (val target) key = Own d" by simp
    show ?thesis
    proof (cases d)
      case (StringTypeDescriptor s)
      with cov have "kind v = KindString" by simp
      then obtain s' where "v = StringTypeDescriptor s'" by (cases v) simp_all
      with Some own StringTypeDescriptor show ?thesis
        by (simp add: merge_source_entry_unfold absent_over_def)
    next
      case (CallTypeDescriptor body)
      with cov have "kind v = KindCall" by simp
      then obtain body' where "v = CallTypeDescriptor body'" by (cases v) simp_all
      with Some own CallTypeDescriptor show ?thesis
        by (simp add: merge_source_entry_unfold Let_def absent_over_def)
    next
      case (RecordType tr)
      with cov obtain sr where v: "v = RecordType sr" and cr: "covers_record sr tr"
        by (cases v) simp_all
      from locale_record_lookup [OF lr own] RecordType have ltr: "locale_record tr" by simp
      from "4.prems"(2) v have lsr: "locale_record sr" by simp
      from "4.prems"(4) own v RecordType have o: "list_all (\<lambda>a. \<not> inherited_name (snd a))
          (absent_record (paths (push_path (key_text key) ctx)) sr tr)"
        by (simp add: absent_over_def)
      from "4.prems"(5) have inv: "snd ` set (missing (push_path (key_text key) ctx)) \<subseteq> {?E}"
        by simp
      from "4.IH" [OF Some refl RecordType v ltr lsr cr o inv]
      have "set (missing (snd (merge t tr sr name (push_path (key_text key) ctx)))) =
          set (missing ctx) \<union>
          (\<lambda>a. (dotted a, ?E)) ` set (absent_record (paths ctx @ [key_text key]) sr tr)"
        by simp
      with Some own v RecordType show ?thesis
        by (simp add: merge_source_entry_unfold case_prod_beta absent_over_def)
    qed
  qed
qed

lemma merge_first:
  assumes "locale_record r" and "list_all (\<lambda>(k, d). \<not> inherited_name k) (val r)"
  shows "merge t createMissingRecordTypeDescriptor r name ctx = (r, ctx)"
proof -
  from assms(1) have d: "distinct (map fst (val r))" by (cases r) simp
  from merge_into_provisional [OF d assms(2), of t False name ctx] locale_record_eq [OF assms(1)]
  show ?thesis by simp
qed

lemma reduce_merge_two:
  assumes "locale_record a" and "list_all (\<lambda>(k, d). \<not> inherited_name k) (val a)"
  shows "reduce_merge t [(na, a), (nb, b)] ctx = merge t a b nb ctx"
  by (simp add: reduce_merge_def merge_first [OF assms])

lemma gen_throws_on_ledger:
  assumes "toTypeNodes mcb t files empty_context = Inr (typeNodes, c1)"
    and "missing (snd (reduce_merge t typeNodes c1)) \<noteq> []"
  shows "isl (gen mcb t printCode printLocale files target lazy defaultLanguage)"
proof -
  let ?c2 = "snd (reduce_merge t typeNodes c1)"
  let ?c3 = "missing_forEach t (new_Set (map fst files)) ?c2"
  from assms(2) obtain p e where pe: "(p, e) \<in> set (missing ?c2)"
    by (cases "missing ?c2") auto
  have "set (errors ?c3) = set (errors ?c2) \<union>
      (\<lambda>(path, e). t (key_missing_in_path path (offending (new_Set (map fst files)) e))) `
        set (missing ?c2)"
    unfolding missing_forEach_def by (rule errors_missing_forEach)
  with pe have "errors ?c3 \<noteq> []" by auto
  with assms show ?thesis
    by (simp add: gen_def unify_def case_prod_beta Let_def)
qed

section \<open>Seeding and the order of the locales\<close>

text \<open>
  C1, as the code has it. For \<^verbatim>\<open>A = {x: "1"}\<close> and \<^verbatim>\<open>B = {y: "2"}\<close>, whatever the
  template parser and the message table: the fold raises no exception, the canonical schema
  keeps the keys of the first locale only (\<open>x\<close> for \<open>[A, B]\<close>, \<open>y\<close> for \<open>[B, A]\<close>), the
  ledger records the other locale's key and the key the other locale lacks, and \<^verbatim>\<open>gen\<close>
  throws in both orders.
\<close>

theorem C1_first_locale_seeds:
  "unify matchCallBody t [locale_A, locale_B] =
     Inr ([(''A'', RecordTypeDescriptor [(Key ''x'', leaf matchCallBody ''1'')] False),
           (''B'', RecordTypeDescriptor [(Key ''y'', leaf matchCallBody ''2'')] False)],
          RecordTypeDescriptor [(Key ''x'', leaf matchCallBody ''1'')] False,
          \<lparr>errors = set_add (t (key_missing_in_path ''.y'' ''A''))
                      [t (key_missing_in_path ''.x'' ''B'')],
           paths = [],
           missing = [(''.x'', \<lparr>entry_exists = [], entry_missing = [''B'']\<rparr>),
                      (''.y'', \<lparr>entry_exists = [''B''], entry_missing = []\<rparr>)]\<rparr>) \<and>
   unify matchCallBody t [locale_B, locale_A] =
     Inr ([(''B'', RecordTypeDescriptor [(Key ''y'', leaf matchCallBody ''2'')] False),
           (''A'', RecordTypeDescriptor [(Key ''x'', leaf matchCallBody ''1'')] False)],
          RecordTypeDescriptor [(Key ''y'', leaf matchCallBody ''2'')] False,
          \<lparr>errors = set_add (t (key_missing_in_path ''.x'' ''B''))
                      [t (key_missing_in_path ''.y'' ''A'')],
           paths = [],
           missing = [(''.y'', \<lparr>entry_exists = [], entry_missing = [''A'']\<rparr>),
                      (''.x'', \<lparr>entry_exists = [''A''], entry_missing = []\<rparr>)]\<rparr>) \<and>
   isl (gen matchCallBody t printCode printLocale [locale_A, locale_B] target lazy defaultLanguage) \<and>
   isl (gen matchCallBody t printCode printLocale [locale_B, locale_A] target lazy defaultLanguage)"
  by (simp add: gen_def unify_def locale_A_def locale_B_def empty_context_def new_Set_def
      reduce_merge_def createMissingRecordTypeDescriptor_def createRecordTypeDescriptor_def
      merge_unfold merge_source_entry_unfold merge_target_entry_def record_set_def
      isMissingRecordTypeDescriptor_def record_missing_def record_exists_def pathOf_def
      getCurrentPath_def missing_forEach_def offending_def diffArray_def errors_add_def
      set_add_def get_property_def Object_prototype_names_def Let_def)

text \<open>
  C1, as the spec states it, fails on \<open>[A, B]\<close>: \<^verbatim>\<open>gen\<close> throws the composite error with
  the two key-missing diagnostics.
\<close>

theorem C1_counterexample:
  "gen braces english printCode_sample printLocale_sample [locale_A, locale_B]
     Target_resource False None =
     Inl (Error (errorMessage [''.x is missing in B'', ''.y is missing in A'']))"
  by (simp add: gen_def unify_def locale_A_def locale_B_def empty_context_def new_Set_def
      reduce_merge_def createMissingRecordTypeDescriptor_def createRecordTypeDescriptor_def
      merge_unfold merge_source_entry_unfold merge_target_entry_def record_set_def
      isMissingRecordTypeDescriptor_def record_missing_def record_exists_def pathOf_def
      getCurrentPath_def missing_forEach_def offending_def diffArray_def errors_add_def
      set_add_def get_property_def Object_prototype_names_def leaf_def braces_def Let_def)




section \<open>A locale with more keys than the other\<close>

text \<open>
  C2, as the code has it. For two locale trees of which \<open>big\<close> has, at every depth, every
  key of \<open>small\<close> with a descriptor of the same kind, and at least one key more, where no
  top-level key of \<open>big\<close> and no key that \<open>small\<close> lacks is an inherited name: the fold
  raises no exception and leaves the first locale's tree as the canonical schema; the
  ledger holds exactly one entry for each path that \<open>small\<close> lacks and no other entry, with
  \<open>small\<close> alone in its \<open>missing\<close> set when \<open>big\<close> is folded first and with \<open>big\<close>
  alone in its \<open>exists\<close> set when \<open>small\<close> is folded first; the report turns each entry
  into a key-missing diagnostic that names \<open>small\<close>; and \<^verbatim>\<open>gen\<close> throws on every input
  that builds into such a pair.
\<close>

theorem C2_superset_ledger:
  assumes "locale_record big" and "locale_record small"
    and "covers_record big small" and "absent_record [] big small \<noteq> []"
    and "list_all (\<lambda>k. \<not> inherited_name k)
           (map fst (val big) @ map snd (absent_record [] big small))"
    and "nb \<noteq> ns" and "paths ctx = []" and "missing ctx = []"
  shows "fst (reduce_merge t [(nb, big), (ns, small)] ctx) = big \<and>
         set (missing (snd (reduce_merge t [(nb, big), (ns, small)] ctx))) =
           (\<lambda>a. (dotted a, \<lparr>entry_exists = [], entry_missing = [ns]\<rparr>)) `
             set (absent_record [] big small) \<and>
         distinct (map fst (missing (snd (reduce_merge t [(nb, big), (ns, small)] ctx)))) \<and>
         fst (reduce_merge t [(ns, small), (nb, big)] ctx) = small \<and>
         set (missing (snd (reduce_merge t [(ns, small), (nb, big)] ctx))) =
           (\<lambda>a. (dotted a, \<lparr>entry_exists = [nb], entry_missing = []\<rparr>)) `
             set (absent_record [] big small) \<and>
         distinct (map fst (missing (snd (reduce_merge t [(ns, small), (nb, big)] ctx)))) \<and>
         (\<forall>a \<in> set (absent_record [] big small).
            t (key_missing_in_path (dotted a) ns)
              \<in> set (errors (missing_forEach t (new_Set [nb, ns])
                               (snd (reduce_merge t [(nb, big), (ns, small)] ctx)))) \<and>
            t (key_missing_in_path (dotted a) ns)
              \<in> set (errors (missing_forEach t (new_Set [ns, nb])
                               (snd (reduce_merge t [(ns, small), (nb, big)] ctx))))) \<and>
         (\<forall>matchCallBody files c printCode printLocale target lazy defaultLanguage.
            toTypeNodes matchCallBody t files empty_context = Inr ([(nb, big), (ns, small)], c) \<or>
            toTypeNodes matchCallBody t files empty_context = Inr ([(ns, small), (nb, big)], c) \<longrightarrow>
            isl (gen matchCallBody t printCode printLocale files target lazy defaultLanguage))"
proof -
  let ?A = "set (absent_record [] big small)"
  let ?bs = "reduce_merge t [(nb, big), (ns, small)] ctx"
  let ?sb = "reduce_merge t [(ns, small), (nb, big)] ctx"
  from assms(5) have top_big: "list_all (\<lambda>(k, d). \<not> inherited_name k) (val big)"
    and ord: "list_all (\<lambda>a. \<not> inherited_name (snd a)) (absent_record [] big small)"
    by (force simp: list_all_iff)+
  from top_big covers_record_keys [OF assms(3)]
  have top_small: "list_all (\<lambda>(k, d). \<not> inherited_name k) (val small)"
    by (fastforce simp: list_all_iff subset_iff)
  have bs: "reduce_merge t [(nb, big), (ns, small)] c = merge t big small ns c" for c
    using assms(1) top_big by (rule reduce_merge_two)
  have sb: "reduce_merge t [(ns, small), (nb, big)] c = merge t small big nb c" for c
    using assms(2) top_small by (rule reduce_merge_two)
  have lf: "set (missing (snd (merge t big small ns c))) =
      (\<lambda>a. (dotted a, \<lparr>entry_exists = [], entry_missing = [ns]\<rparr>)) ` ?A"
    if "paths c = []" "missing c = []" for c
    using ledger_target_covers(1) [OF assms(1,3), of c ns t] ord that by simp
  have sf: "set (missing (snd (merge t small big nb c))) =
      (\<lambda>a. (dotted a, \<lparr>entry_exists = [nb], entry_missing = []\<rparr>)) ` ?A"
    if "paths c = []" "missing c = []" for c
    using ledger_source_covers(1) [OF assms(2,1,3), of c nb t] ord that by simp
  have names: "new_Set [nb, ns] = [nb, ns]" "new_Set [ns, nb] = [ns, nb]"
    using assms(6) by (auto simp: new_Set_def set_add_def)
  have r1: "t (key_missing_in_path (dotted a) ns)
      \<in> set (errors (missing_forEach t (new_Set [nb, ns]) (snd ?bs)))" if "a \<in> ?A" for a
  proof -
    from that have "(dotted a, \<lparr>entry_exists = [], entry_missing = [ns]\<rparr>) \<in> set (missing (snd ?bs))"
      unfolding bs lf [OF assms(7,8)] by (rule imageI)
    then have "t (key_missing_in_path (dotted a)
        (offending [nb, ns] \<lparr>entry_exists = [], entry_missing = [ns]\<rparr>))
        \<in> set (errors (missing_forEach t [nb, ns] (snd ?bs)))"
      unfolding missing_forEach_def errors_missing_forEach by force
    then show ?thesis by (simp add: names offending_def)
  qed
  have r2: "t (key_missing_in_path (dotted a) ns)
      \<in> set (errors (missing_forEach t (new_Set [ns, nb]) (snd ?sb)))" if "a \<in> ?A" for a
  proof -
    from that have "(dotted a, \<lparr>entry_exists = [nb], entry_missing = []\<rparr>) \<in> set (missing (snd ?sb))"
      unfolding sb sf [OF assms(7,8)] by (rule imageI)
    then have "t (key_missing_in_path (dotted a)
        (offending [ns, nb] \<lparr>entry_exists = [nb], entry_missing = []\<rparr>))
        \<in> set (errors (missing_forEach t [ns, nb] (snd ?sb)))"
      unfolding missing_forEach_def errors_missing_forEach by force
    then show ?thesis using assms(6) by (simp add: names offending_def diffArray_def)
  qed
  from assms(4) obtain a0 where a0: "a0 \<in> ?A" by (cases "absent_record [] big small") auto
  have g: "isl (gen matchCallBody t printCode printLocale files target lazy defaultLanguage)"
    if tn: "toTypeNodes matchCallBody t files empty_context = Inr ([(nb, big), (ns, small)], c) \<or>
            toTypeNodes matchCallBody t files empty_context = Inr ([(ns, small), (nb, big)], c)"
    for matchCallBody files c printCode printLocale target lazy defaultLanguage
    using tn
  proof
    assume a: "toTypeNodes matchCallBody t files empty_context = Inr ([(nb, big), (ns, small)], c)"
    from toTypeNodes_context [OF a] have c: "paths c = []" "missing c = []"
      by (simp_all add: empty_context_def)
    have "missing (snd (reduce_merge t [(nb, big), (ns, small)] c)) \<noteq> []"
      using lf [OF c] a0 unfolding bs by auto
    with a show ?thesis by (rule gen_throws_on_ledger)
  next
    assume a: "toTypeNodes matchCallBody t files empty_context = Inr ([(ns, small), (nb, big)], c)"
    from toTypeNodes_context [OF a] have c: "paths c = []" "missing c = []"
      by (simp_all add: empty_context_def)
    have "missing (snd (reduce_merge t [(ns, small), (nb, big)] c)) \<noteq> []"
      using sf [OF c] a0 unfolding sb by auto
    with a show ?thesis by (rule gen_throws_on_ledger)
  qed
  have k1: "fst ?bs = big" unfolding bs using assms(1) by (rule merge_keeps_locale_record)
  have k2: "fst ?sb = small" unfolding sb using assms(2) by (rule merge_keeps_locale_record)
  have d1: "distinct (map fst (missing (snd ?bs)))"
    unfolding bs by (rule distinct_ledger_merge) (simp add: assms(8))
  have d2: "distinct (map fst (missing (snd ?sb)))"
    unfolding sb by (rule distinct_ledger_merge) (simp add: assms(8))
  from k1 k2 d1 d2 lf [OF assms(7,8)] sf [OF assms(7,8)] r1 r2 g show ?thesis
    unfolding bs sb by blast
qed

theorem C2_superset_ledger_witness:
  "locale_record tree_larger \<and> locale_record tree_smaller \<and>
   covers_record tree_larger tree_smaller \<and>
   absent_record [] tree_larger tree_smaller = [([], Key ''y''), ([''menu''], Key ''close'')] \<and>
   list_all (\<lambda>k. \<not> inherited_name k)
     (map fst (val tree_larger) @ map snd (absent_record [] tree_larger tree_smaller)) \<and>
   ''en'' \<noteq> ''es'' \<and> paths empty_context = [] \<and> missing empty_context = [] \<and>
   set (missing (snd (reduce_merge english [(''en'', tree_larger), (''es'', tree_smaller)]
                        empty_context))) =
     {(''.y'', \<lparr>entry_exists = [], entry_missing = [''es'']\<rparr>),
      (''menu.close'', \<lparr>entry_exists = [], entry_missing = [''es'']\<rparr>)} \<and>
   set (missing (snd (reduce_merge english [(''es'', tree_smaller), (''en'', tree_larger)]
                        empty_context))) =
     {(''.y'', \<lparr>entry_exists = [''en''], entry_missing = []\<rparr>),
      (''menu.close'', \<lparr>entry_exists = [''en''], entry_missing = []\<rparr>)} \<and>
   ''menu.close is missing in es''
     \<in> set (errors (missing_forEach english (new_Set [''es'', ''en''])
          (snd (reduce_merge english [(''es'', tree_smaller), (''en'', tree_larger)] empty_context))))"
proof -
  have h1: "locale_record tree_larger" by (simp add: tree_larger_def)
  have h2: "locale_record tree_smaller" by (simp add: tree_smaller_def)
  have h3: "covers_record tree_larger tree_smaller"
    by (simp add: tree_larger_def tree_smaller_def)
  have a: "absent_record [] tree_larger tree_smaller = [([], Key ''y''), ([''menu''], Key ''close'')]"
    by (simp add: tree_larger_def tree_smaller_def)
  then have h4: "absent_record [] tree_larger tree_smaller \<noteq> []" by simp
  have h5: "list_all (\<lambda>k. \<not> inherited_name k)
     (map fst (val tree_larger) @ map snd (absent_record [] tree_larger tree_smaller))"
    unfolding a by (simp add: tree_larger_def inherited_name_def Object_prototype_names_def)
  have h6: "''en'' \<noteq> ''es''" by simp
  have h7: "paths empty_context = []" and h8: "missing empty_context = []"
    by (simp_all add: empty_context_def)
  have d: "dotted ([], Key ''y'') = ''.y''" "dotted ([''menu''], Key ''close'') = ''menu.close''"
    by (simp_all add: dotted_def)
  from C2_superset_ledger [OF h1 h2 h3 h4 h5 h6 h7 h8, of english] a d h1 h2 h3 h5 h6 h7 h8
  show ?thesis by simp
qed

text \<open>
  C2, as the spec states it, fails on \<^verbatim>\<open>{x: "1", y: "2"}\<close> and \<^verbatim>\<open>{x: "uno"}\<close>:
  \<^verbatim>\<open>gen\<close> throws in both orders.
\<close>

theorem C2_counterexample:
  "gen braces english printCode_sample printLocale_sample [locale_xy, locale_x]
     Target_resource False None =
     Inl (Error (errorMessage [''.y is missing in es''])) \<and>
   gen braces english printCode_sample printLocale_sample [locale_x, locale_xy]
     Target_resource False None =
     Inl (Error (errorMessage [''.y is missing in es'']))"
  by (simp add: evaluation locale_xy_def locale_x_def)

section \<open>A single locale used alone\<close>

text \<open>
  C4 fails on the single locale \<^verbatim>\<open>{constructor: "x"}\<close>. The tree builder gives the tree
  the key as an own entry, but the provisional accumulator inherits the name, so the second
  loop of \<^verbatim>\<open>merge\<close> takes the path of a key that the target holds: the key is not
  adopted, the canonical schema stays empty, a type-mismatch diagnostic with the expected
  kind \<^verbatim>\<open>undefined\<close> is recorded and \<^verbatim>\<open>gen\<close> throws. For every other top-level key
  the code does what C4 says (\<open>single_locale_succeeds\<close>).
\<close>

theorem C4_inherited_key_not_adopted:
  "toTypeNode braces english (snd locale_constructor) empty_context =
     Inr (RecordTypeDescriptor [(Key ''constructor'', StringTypeDescriptor ''x'')] False,
          empty_context) \<and>
   unify braces english [locale_constructor] =
     Inr ([(''en'', RecordTypeDescriptor [(Key ''constructor'', StringTypeDescriptor ''x'')] False)],
          RecordTypeDescriptor [] False,
          \<lparr>errors = [''.constructor is not correctly type, expected: undefined, actually: String''],
           paths = [], missing = []\<rparr>) \<and>
   gen braces english printCode_sample printLocale_sample [locale_constructor]
     Target_resource False None =
     Inl (Error (errorMessage
       [''.constructor is not correctly type, expected: undefined, actually: String'']))"
  by (simp add: gen_def unify_def locale_constructor_def empty_context_def new_Set_def
      reduce_merge_def createMissingRecordTypeDescriptor_def createRecordTypeDescriptor_def
      merge_unfold merge_source_entry_unfold record_set_def get_property_def
      Object_prototype_names_def pathOf_def getCurrentPath_def errors_add_def set_add_def
      leaf_def braces_def createStringTypeDescriptor_def Let_def)

section \<open>The tree builder on values that are no dictionary\<close>

text \<open>
  C5. A \<^verbatim>\<open>null\<close> value takes the \<^verbatim>\<open>'object'\<close> case of \<^verbatim>\<open>toTypeNode\<close>, whose recursive
  call throws a \<^verbatim>\<open>TypeError\<close> out of the build step; an array takes the same case and is
  built into a nested group keyed by its indices, with no diagnostic. Only a value such as
  a boolean reaches the \<^verbatim>\<open>default\<close> case, which records the diagnostic and leaves the
  key out.
\<close>

theorem C5_null_and_array_not_rejected:
  "toTypeNode matchCallBody t (YObject [(Key ''flag'', YNull)]) context = Inl TypeError \<and>
   toTypeNode matchCallBody t (YObject [(Key ''flag'', YArray [YString ''a''])]) context =
     Inr (RecordTypeDescriptor
            [(Key ''flag'',
              RecordType (RecordTypeDescriptor [(Key ''0'', leaf matchCallBody ''a'')] False))]
            False, context) \<and>
   toTypeNode matchCallBody t (YObject [(Key ''flag'', YBoolean True)]) context =
     Inr (RecordTypeDescriptor [] False,
          errors_add (t (unexpected_value ''flag'' (YBoolean True))) context)"
  by (simp add: createRecordTypeDescriptor_def record_set_def indices_def show_nat.simps
        push_path_def pop_path_def)

section \<open>The composite failure\<close>

text \<open>
  C6. Once every locale has been built and folded and the ledger reported, \<^verbatim>\<open>gen\<close> throws
  if and only if the error set is not empty; what it throws is the one \<^verbatim>\<open>Error\<close> whose
  message lists every diagnostic of the set on a line of its own, numbered from 1; and a
  run that throws returns no output.
\<close>

theorem C6_composite_failure:
  assumes "unify matchCallBody t files = Inr (typeNodes, merged, ctx)"
  shows "(isl (gen matchCallBody t printCode printLocale files target lazy defaultLanguage)
            \<longleftrightarrow> errors ctx \<noteq> []) \<and>
         (errors ctx \<noteq> [] \<longrightarrow>
            gen matchCallBody t printCode printLocale files target lazy defaultLanguage =
              Inl (Error (errorMessage (errors ctx)))) \<and>
         (\<exists>lines. errorMessage (errors ctx) =
                    newline @ ''Errors:'' @ newline @ join newline lines @ newline \<and>
            length lines = length (errors ctx) \<and>
            (\<forall>i < length (errors ctx).
               lines ! i = ''  '' @ show_nat (i + 1) @ ''. '' @ errors ctx ! i))"
  using errorMessage_lines [of "errors ctx"]
  by (simp add: gen_def assms Let_def)

theorem C6_composite_failure_witness:
  "unify braces english [locale_A, locale_B] =
     Inr ([(''A'', RecordTypeDescriptor [(Key ''x'', StringTypeDescriptor ''1'')] False),
           (''B'', RecordTypeDescriptor [(Key ''y'', StringTypeDescriptor ''2'')] False)],
          RecordTypeDescriptor [(Key ''x'', StringTypeDescriptor ''1'')] False,
          ledger_context\<lparr>errors := [''.x is missing in B'', ''.y is missing in A'']\<rparr>) \<and>
   gen braces english printCode_sample printLocale_sample [locale_A, locale_B]
     Target_resource False None =
     Inl (Error (errorMessage [''.x is missing in B'', ''.y is missing in A'']))"
proof -
  have u: "unify braces english [locale_A, locale_B] =
     Inr ([(''A'', RecordTypeDescriptor [(Key ''x'', StringTypeDescriptor ''1'')] False),
           (''B'', RecordTypeDescriptor [(Key ''y'', StringTypeDescriptor ''2'')] False)],
          RecordTypeDescriptor [(Key ''x'', StringTypeDescriptor ''1'')] False,
          ledger_context\<lparr>errors := [''.x is missing in B'', ''.y is missing in A'']\<rparr>)"
    by (simp add: evaluation locale_A_def locale_B_def ledger_context_def)
  from C6_composite_failure [OF u, where printCode = printCode_sample
      and printLocale = printLocale_sample and target = Target_resource and lazy = False
      and defaultLanguage = None] u
  show ?thesis by simp
qed

section \<open>The ledger turned into diagnostics\<close>

text \<open>
  C7. Whenever \<^verbatim>\<open>gen\<close> has built and folded its input files, its report leaves the ledger
  as it is and adds to the error set one key-missing diagnostic for each entry of the
  ledger and nothing else. The names a diagnostic lists are the names of the input files
  outside the entry's \<open>exists\<close> set, each once, when that set is not empty, and the
  entry's \<open>missing\<close> set otherwise. With an entry in the ledger \<^verbatim>\<open>gen\<close> throws the
  composite error of the resulting error set.
\<close>

theorem C7_missing_report:
  assumes "fold_locales matchCallBody t files = Inr (typeNodes, merged, ledger)"
  shows "\<exists>final.
           unify matchCallBody t files = Inr (typeNodes, merged, final) \<and>
           missing final = missing ledger \<and>
           set (errors final) =
             set (errors ledger) \<union>
             (\<lambda>(path, e). t (key_missing_in_path path (offending (new_Set (map fst files)) e))) `
               set (missing ledger) \<and>
           (\<forall>(path, e) \<in> set (missing ledger).
              \<exists>ns. offending (new_Set (map fst files)) e = join '','' ns \<and>
                   t (key_missing_in_path path (join '','' ns)) \<in> set (errors final) \<and>
                   (entry_exists e \<noteq> [] \<longrightarrow>
                      set ns = set (map fst files) - set (entry_exists e) \<and> distinct ns) \<and>
                   (entry_exists e = [] \<longrightarrow> ns = entry_missing e)) \<and>
           (missing ledger \<noteq> [] \<longrightarrow>
              gen matchCallBody t printCode printLocale files target lazy defaultLanguage =
                Inl (Error (errorMessage (errors final))))"
proof -
  let ?names = "new_Set (map fst files)"
  let ?final = "if missing ledger \<noteq> [] then missing_forEach t ?names ledger else ledger"
  from assms have u: "unify matchCallBody t files = Inr (typeNodes, merged, ?final)"
    by (auto simp: fold_locales_def unify_def Let_def split: sum.splits prod.splits)
  have m: "missing ?final = missing ledger"
    by (simp add: missing_missing_forEach)
  have eq: "set (errors ?final) =
      set (errors ledger) \<union>
      (\<lambda>(path, e). t (key_missing_in_path path (offending ?names e))) ` set (missing ledger)"
  proof (cases "missing ledger = []")
    case True
    then show ?thesis by simp
  next
    case False
    then show ?thesis
      unfolding missing_forEach_def by (simp add: errors_missing_forEach)
  qed
  have each: "\<forall>(path, e) \<in> set (missing ledger).
      \<exists>ns. offending ?names e = join '','' ns \<and>
           t (key_missing_in_path path (join '','' ns)) \<in> set (errors ?final) \<and>
           (entry_exists e \<noteq> [] \<longrightarrow>
              set ns = set (map fst files) - set (entry_exists e) \<and> distinct ns) \<and>
           (entry_exists e = [] \<longrightarrow> ns = entry_missing e)"
  proof (intro ballI, clarify)
    fix path e
    assume pe: "(path, e) \<in> set (missing ledger)"
    let ?ns = "if entry_exists e \<noteq> [] then diffArray ?names (entry_exists e) else entry_missing e"
    have o: "offending ?names e = join '','' ?ns" by (simp add: offending_def)
    have "t (key_missing_in_path path (offending ?names e)) \<in> set (errors ?final)"
      unfolding eq using pe by force
    with o show "\<exists>ns. offending ?names e = join '','' ns \<and>
           t (key_missing_in_path path (join '','' ns)) \<in> set (errors ?final) \<and>
           (entry_exists e \<noteq> [] \<longrightarrow>
              set ns = set (map fst files) - set (entry_exists e) \<and> distinct ns) \<and>
           (entry_exists e = [] \<longrightarrow> ns = entry_missing e)"
      by (intro exI [of _ ?ns])
        (simp add: set_diffArray set_new_Set distinct_diffArray distinct_new_Set)
  qed
  have g: "gen matchCallBody t printCode printLocale files target lazy defaultLanguage =
      Inl (Error (errorMessage (errors ?final)))" if ne: "missing ledger \<noteq> []"
  proof -
    from ne obtain p e where "(p, e) \<in> set (missing ledger)" by (cases "missing ledger") auto
    with eq have "errors ?final \<noteq> []" by auto
    then show ?thesis by (simp add: gen_def u Let_def del: if_split cong: if_cong)
  qed
  from u m eq each g show ?thesis by blast
qed

theorem C7_missing_report_witness:
  "fold_locales braces english [locale_A, locale_B] =
     Inr ([(''A'', RecordTypeDescriptor [(Key ''x'', StringTypeDescriptor ''1'')] False),
           (''B'', RecordTypeDescriptor [(Key ''y'', StringTypeDescriptor ''2'')] False)],
          RecordTypeDescriptor [(Key ''x'', StringTypeDescriptor ''1'')] False,
          ledger_context) \<and>
   unify braces english [locale_A, locale_B] =
     Inr ([(''A'', RecordTypeDescriptor [(Key ''x'', StringTypeDescriptor ''1'')] False),
           (''B'', RecordTypeDescriptor [(Key ''y'', StringTypeDescriptor ''2'')] False)],
          RecordTypeDescriptor [(Key ''x'', StringTypeDescriptor ''1'')] False,
          ledger_context\<lparr>errors := [''.x is missing in B'', ''.y is missing in A'']\<rparr>) \<and>
   set (map fst [locale_A, locale_B]) - set [''B''] = {''A''} \<and>
   gen braces english printCode_sample printLocale_sample [locale_A, locale_B]
     Target_provider False None =
     Inl (Error (errorMessage [''.x is missing in B'', ''.y is missing in A'']))"
proof -
  have h: "fold_locales braces english [locale_A, locale_B] =
     Inr ([(''A'', RecordTypeDescriptor [(Key ''x'', StringTypeDescriptor ''1'')] False),
           (''B'', RecordTypeDescriptor [(Key ''y'', StringTypeDescriptor ''2'')] False)],
          RecordTypeDescriptor [(Key ''x'', StringTypeDescriptor ''1'')] False,
          ledger_context)"
    by (simp add: evaluation locale_A_def locale_B_def ledger_context_def)
  have u: "unify braces english [locale_A, locale_B] =
     Inr ([(''A'', RecordTypeDescriptor [(Key ''x'', StringTypeDescriptor ''1'')] False),
           (''B'', RecordTypeDescriptor [(Key ''y'', StringTypeDescriptor ''2'')] False)],
          RecordTypeDescriptor [(Key ''x'', StringTypeDescriptor ''1'')] False,
          ledger_context\<lparr>errors := [''.x is missing in B'', ''.y is missing in A'']\<rparr>)"
    by (simp add: evaluation locale_A_def locale_B_def ledger_context_def)
  have n: "set (map fst [locale_A, locale_B]) - set [''B''] = {''A''}"
    by (auto simp: locale_A_def locale_B_def)
  have l: "missing ledger_context \<noteq> []" by (simp add: ledger_context_def)
  from C7_missing_report [OF h, where printCode = printCode_sample
      and printLocale = printLocale_sample and target = Target_provider and lazy = False
      and defaultLanguage = None] u l
  have "gen braces english printCode_sample printLocale_sample [locale_A, locale_B]
     Target_provider False None =
     Inl (Error (errorMessage [''.x is missing in B'', ''.y is missing in A'']))"
    by auto
  with h u n show ?thesis by blast
qed

section \<open>Parameterized values\<close>

text \<open>
  C8. For a key that is a parameterized value in the target and in the locale tree, the
  merge compares the two sequences of \<open>Param\<close> names: the step leaves the context as it
  is when they are equal and records the diagnostic with the path and the two comma-joined
  sequences when they differ; the target is left as it is in both cases, and after the
  whole \<^verbatim>\<open>merge\<close> the diagnostic of a difference is in the error set and the target's
  descriptor for the key is unchanged.
\<close>

theorem C8_call_signature:
  assumes "map_of (val target) key = Some (CallTypeDescriptor tb)"
    and "map_of sv key = Some (CallTypeDescriptor sb)"
    and "m = t (args_is_different (pathOf ctx key)
                  (join '','' (param_names tb)) (join '','' (param_names sb)))"
  shows "merge_source_entry t key (CallTypeDescriptor sb) name (target, ctx) =
           (target, if param_names tb = param_names sb then ctx else errors_add m ctx) \<and>
         (param_names tb \<noteq> param_names sb \<longrightarrow>
            m \<in> set (errors (snd (merge t target (RecordTypeDescriptor sv sm) name ctx)))) \<and>
         map_of (val (fst (merge t target (RecordTypeDescriptor sv sm) name ctx))) key =
           Some (CallTypeDescriptor tb)"
proof (intro conjI impI)
  show "merge_source_entry t key (CallTypeDescriptor sb) name (target, ctx) =
          (target, if param_names tb = param_names sb then ctx else errors_add m ctx)"
    using assms(1) by (simp add: merge_source_entry_call param_names_eq assms(3))
next
  assume ne: "param_names tb \<noteq> param_names sb"
  show "m \<in> set (errors (snd (merge t target (RecordTypeDescriptor sv sm) name ctx)))"
  proof (rule merge_records [where d = "CallTypeDescriptor tb" and key = key
        and v = "CallTypeDescriptor sb"])
    fix target' and ctx' :: Context
    assume "keeps target' key (CallTypeDescriptor tb)" and p: "paths ctx' = paths ctx"
    then have "map_of (val target') key = Some (CallTypeDescriptor tb)"
      by (intro keeps_leaf) simp_all
    then show "m \<in> set (errors (snd (merge_source_entry t key (CallTypeDescriptor sb) name
                                       (target', ctx'))))"
      using ne p by (simp add: merge_source_entry_call param_names_eq assms(3)
          pathOf_cong [of ctx' ctx])
  next
    show "(key, CallTypeDescriptor sb) \<in> set sv" using assms(2) by (rule map_of_SomeD)
  next
    show "keeps target key (CallTypeDescriptor tb)" using assms(1) by (rule keeps_self)
  qed
next
  have "keeps (fst (merge t target (RecordTypeDescriptor sv sm) name ctx)) key (CallTypeDescriptor tb)"
    using assms(1) by (intro keeps_merge keeps_self)
  then show "map_of (val (fst (merge t target (RecordTypeDescriptor sv sm) name ctx))) key =
      Some (CallTypeDescriptor tb)"
    by (intro keeps_leaf) simp_all
qed

theorem C8_call_signature_witness:
  "map_of (val (RecordTypeDescriptor [(Key ''greeting'', hi_name)] False)) (Key ''greeting'') =
     Some (CallTypeDescriptor [StringLiteral ''hi '', Param ''name'']) \<and>
   map_of [(Key ''greeting'', hi_user)] (Key ''greeting'') =
     Some (CallTypeDescriptor [StringLiteral ''hi '', Param ''user'']) \<and>
   merge english (RecordTypeDescriptor [(Key ''greeting'', hi_name)] False)
     (RecordTypeDescriptor [(Key ''greeting'', hi_user)] False) ''B'' empty_context =
     (RecordTypeDescriptor [(Key ''greeting'', hi_name)] False,
      empty_context\<lparr>errors := [''.greeting has different type: [name] [user]'']\<rparr>) \<and>
   ''.greeting has different type: [name] [user]''
     \<in> set (errors (snd (merge english (RecordTypeDescriptor [(Key ''greeting'', hi_name)] False)
                (RecordTypeDescriptor [(Key ''greeting'', hi_user)] False) ''B'' empty_context)))"
proof -
  have h1: "map_of (val (RecordTypeDescriptor [(Key ''greeting'', hi_name)] False)) (Key ''greeting'') =
     Some (CallTypeDescriptor [StringLiteral ''hi '', Param ''name''])"
    by (simp add: hi_name_def)
  have h2: "map_of [(Key ''greeting'', hi_user)] (Key ''greeting'') =
     Some (CallTypeDescriptor [StringLiteral ''hi '', Param ''user''])"
    by (simp add: hi_user_def)
  have h3: "''.greeting has different type: [name] [user]'' =
      english (args_is_different (pathOf empty_context (Key ''greeting''))
        (join '','' (param_names [StringLiteral ''hi '', Param ''name'']))
        (join '','' (param_names [StringLiteral ''hi '', Param ''user''])))"
    by (simp add: pathOf_def getCurrentPath_def empty_context_def)
  have ne: "param_names [StringLiteral ''hi '', Param ''name''] \<noteq>
      param_names [StringLiteral ''hi '', Param ''user'']"
    by simp
  have m: "merge english (RecordTypeDescriptor [(Key ''greeting'', hi_name)] False)
     (RecordTypeDescriptor [(Key ''greeting'', hi_user)] False) ''B'' empty_context =
     (RecordTypeDescriptor [(Key ''greeting'', hi_name)] False,
      empty_context\<lparr>errors := [''.greeting has different type: [name] [user]'']\<rparr>)"
    by (simp add: merge_unfold merge_source_entry_unfold merge_target_entry_def hi_name_def
        hi_user_def empty_context_def errors_add_def set_add_def pathOf_def getCurrentPath_def
        arrayEq_def Let_def)
  from C8_call_signature [where t = english and ctx = empty_context and name = "''B''"
      and sm = False and m = "''.greeting has different type: [name] [user]''", OF h1 h2 h3]
    ne h1 h2 m
  show ?thesis by blast
qed

section \<open>A kind mismatch is recorded twice and kept once\<close>





end
